theory Spec2Isabelle
  imports Main "HOL-Library.Word" "HOL-Library.AList" "HOL-Library.Multiset"
begin

unbundle bit_operations_syntax

section \<open>Library functions used by render.go\<close>

text \<open>
  Go strings are byte sequences; they are modelled as \<open>string\<close> (a list of 8-bit
  characters). The functions of this section are the ones of Go's \<^verbatim>\<open>strings\<close>,
  \<^verbatim>\<open>path/filepath\<close>, \<^verbatim>\<open>time\<close> and \<^verbatim>\<open>os\<close> packages that
  \<^verbatim>\<open>cmd/debiman/render.go\<close> calls, written after their documented behaviour on
  Unix.
\<close>

subsection \<open>strings\<close>

definition hasSuffix :: "string \<Rightarrow> string \<Rightarrow> bool" where
  "hasSuffix s suffix =
     (length suffix \<le> length s \<and> drop (length s - length suffix) s = suffix)"

definition trimSuffix :: "string \<Rightarrow> string \<Rightarrow> string" where
  "trimSuffix s suffix =
     (if hasSuffix s suffix then take (length s - length suffix) s else s)"

text \<open>\<^verbatim>\<open>strings.Split(s, sep)\<close> for a one-byte separator: the empty string splits
  into one empty field.\<close>

fun splitOn :: "char \<Rightarrow> string \<Rightarrow> string list" where
  "splitOn c [] = [[]]"
| "splitOn c (x # xs) =
     (if x = c then [] # splitOn c xs
      else (case splitOn c xs of
              [] \<Rightarrow> [[x]]
            | r # rs \<Rightarrow> (x # r) # rs))"

fun joinWith :: "string \<Rightarrow> string list \<Rightarrow> string" where
  "joinWith sep [] = []"
| "joinWith sep [e] = e"
| "joinWith sep (e # es) = e @ sep @ joinWith sep es"

text \<open>\<^verbatim>\<open>strings.TrimSpace\<close> removes the leading and the trailing white space, as
  \<^verbatim>\<open>unicode.IsSpace\<close> defines it: tab, line feed, vertical tab, form feed, carriage
  return, space, U+0085, U+00A0, U+1680, U+2000 to U+200A, U+2028, U+2029, U+202F, U+205F
  and U+3000. A Go string holds UTF-8, so each of them is the byte sequence that encodes
  it; a byte sequence that does not decode is no white space.\<close>

definition hasPrefix :: "string \<Rightarrow> string \<Rightarrow> bool" where
  "hasPrefix s prefix = (length prefix \<le> length s \<and> take (length prefix) s = prefix)"

definition spaceRunes :: "string list" where
  "spaceRunes =
     [[CHR 0x09], [CHR 0x0A], [CHR 0x0B], [CHR 0x0C], [CHR 0x0D], [CHR 0x20],
      [CHR 0xC2, CHR 0x85], [CHR 0xC2, CHR 0xA0],
      [CHR 0xE1, CHR 0x9A, CHR 0x80],
      [CHR 0xE2, CHR 0x80, CHR 0x80], [CHR 0xE2, CHR 0x80, CHR 0x81],
      [CHR 0xE2, CHR 0x80, CHR 0x82], [CHR 0xE2, CHR 0x80, CHR 0x83],
      [CHR 0xE2, CHR 0x80, CHR 0x84], [CHR 0xE2, CHR 0x80, CHR 0x85],
      [CHR 0xE2, CHR 0x80, CHR 0x86], [CHR 0xE2, CHR 0x80, CHR 0x87],
      [CHR 0xE2, CHR 0x80, CHR 0x88], [CHR 0xE2, CHR 0x80, CHR 0x89],
      [CHR 0xE2, CHR 0x80, CHR 0x8A],
      [CHR 0xE2, CHR 0x80, CHR 0xA8], [CHR 0xE2, CHR 0x80, CHR 0xA9],
      [CHR 0xE2, CHR 0x80, CHR 0xAF],
      [CHR 0xE2, CHR 0x81, CHR 0x9F],
      [CHR 0xE3, CHR 0x80, CHR 0x80]]"

text \<open>The width in bytes of the white-space character a string starts with, and of the
  one it ends with; \<open>0\<close> when there is none.\<close>

definition leadingSpace :: "string \<Rightarrow> nat" where
  "leadingSpace s =
     (case find (hasPrefix s) spaceRunes of None \<Rightarrow> 0 | Some r \<Rightarrow> length r)"

definition trailingSpace :: "string \<Rightarrow> nat" where
  "trailingSpace s =
     (case find (hasSuffix s) spaceRunes of None \<Rightarrow> 0 | Some r \<Rightarrow> length r)"

function trimLeftSpace :: "string \<Rightarrow> string" where
  "trimLeftSpace s =
     (if leadingSpace s = 0 then s else trimLeftSpace (drop (leadingSpace s) s))"
  by pat_completeness auto
termination
proof (relation "measure length")
  show "wf (measure length)" by simp
next
  fix s :: string
  assume p: "leadingSpace s \<noteq> 0"
  then obtain r where r: "find (hasPrefix s) spaceRunes = Some r" "leadingSpace s = length r"
    by (auto simp add: leadingSpace_def split: option.splits)
  then have "hasPrefix s r" by (auto simp add: find_Some_iff)
  with p r have "s \<noteq> []" by (auto simp add: hasPrefix_def)
  with p show "(drop (leadingSpace s) s, s) \<in> measure length" by simp
qed

function trimRightSpace :: "string \<Rightarrow> string" where
  "trimRightSpace s =
     (if trailingSpace s = 0 then s
      else trimRightSpace (take (length s - trailingSpace s) s))"
  by pat_completeness auto
termination
proof (relation "measure length")
  show "wf (measure length)" by simp
next
  fix s :: string
  assume p: "trailingSpace s \<noteq> 0"
  then obtain r where r: "find (hasSuffix s) spaceRunes = Some r" "trailingSpace s = length r"
    by (auto simp add: trailingSpace_def split: option.splits)
  then have "hasSuffix s r" by (auto simp add: find_Some_iff)
  with p r have "s \<noteq> []" by (auto simp add: hasSuffix_def)
  with p show "(take (length s - trailingSpace s) s, s) \<in> measure length" by simp
qed

definition trimSpace :: "string \<Rightarrow> string" where
  "trimSpace s = trimRightSpace (trimLeftSpace s)"

subsection \<open>path/filepath\<close>

text \<open>\<^verbatim>\<open>filepath.Clean\<close>: the path is cut at its separators; empty elements and
  \<open>.\<close> are dropped, an inner \<open>..\<close> removes the element before it, a \<open>..\<close> at the
  start of a rooted path is dropped and one at the start of a relative path is kept.\<close>

fun cleanElems :: "bool \<Rightarrow> string list \<Rightarrow> string list \<Rightarrow> string list" where
  "cleanElems rooted out [] = rev out"
| "cleanElems rooted out (e # es) =
     (if e = [] \<or> e = ''.'' then cleanElems rooted out es
      else if e = ''..'' then
        (case out of
           [] \<Rightarrow> if rooted then cleanElems rooted out es else cleanElems rooted [e] es
         | t # ts \<Rightarrow>
             if t = ''..'' then cleanElems rooted (e # out) es
             else cleanElems rooted ts es)
      else cleanElems rooted (e # out) es)"

definition filepathClean :: "string \<Rightarrow> string" where
  "filepathClean path =
     (case path of
        [] \<Rightarrow> ''.''
      | c # _ \<Rightarrow>
          (let rooted = (c = CHR ''/'');
               out = joinWith ''/'' (cleanElems rooted [] (splitOn CHR ''/'' path))
           in if rooted then CHR ''/'' # out
              else if out = [] then ''.'' else out))"

text \<open>\<^verbatim>\<open>filepath.Join\<close>: leading empty elements are ignored, the rest is joined
  with separators and cleaned; no non-empty element gives the empty string.\<close>

definition filepathJoin :: "string list \<Rightarrow> string" where
  "filepathJoin elem =
     (case dropWhile (\<lambda>e. e = []) elem of
        [] \<Rightarrow> []
      | es \<Rightarrow> filepathClean (joinWith ''/'' es))"

definition filepathBase :: "string \<Rightarrow> string" where
  "filepathBase path =
     (if path = [] then ''.''
      else (let stripped = rev (dropWhile (\<lambda>c. c = CHR ''/'') (rev path));
                l = rev (takeWhile (\<lambda>c. c \<noteq> CHR ''/'') (rev stripped))
            in if l = [] then ''/'' else l))"

definition filepathDir :: "string \<Rightarrow> string" where
  "filepathDir path = filepathClean (rev (dropWhile (\<lambda>c. c \<noteq> CHR ''/'') (rev path)))"

subsection \<open>time and os\<close>

text \<open>A \<^verbatim>\<open>time.Time\<close> without monotonic reading is an instant; it is modelled as
  the integer count of nanoseconds since Go's zero time (January 1, year 1, UTC), so
  the zero value of the type is \<open>0\<close>.\<close>

type_synonym time = int

definition zeroTime :: time where
  "zeroTime = 0"

definition After :: "time \<Rightarrow> time \<Rightarrow> bool" where
  "After t u = (u < t)"

definition Before :: "time \<Rightarrow> time \<Rightarrow> bool" where
  "Before t u = (t < u)"

text \<open>\<^verbatim>\<open>os.FileInfo\<close> as \<^verbatim>\<open>ioutil.ReadDir\<close> returns it (from \<^verbatim>\<open>lstat\<close>):
  the base name, the modification time and the mode bits. \<^verbatim>\<open>os.FileMode\<close> is a
  \<^verbatim>\<open>uint32\<close>; \<^verbatim>\<open>ModeDir\<close> is its bit 31 and \<^verbatim>\<open>ModeSymlink\<close> its bit 27.\<close>

record fileInfo =
  Name :: string
  ModTime :: time
  Mode :: "32 word"

definition ModeDir :: "32 word" where
  "ModeDir = push_bit 31 1"

definition ModeSymlink :: "32 word" where
  "ModeSymlink = push_bit 27 1"

definition IsDir :: "fileInfo \<Rightarrow> bool" where
  "IsDir fi = (Mode fi AND ModeDir \<noteq> 0)"

section \<open>writeAtomically (lines 38 to 80)\<close>

text \<open>
  The part of the file system a call can touch is a map from paths to regular files: the
  content, the modification time and the permission bits. What the operating system and
  the libraries decide is a parameter of the call: the random names
  \<^verbatim>\<open>ioutil.TempFile\<close> tries in turn, which of the steps fail and with what error, the
  clock, the compressor, and how much of the compressed stream the buffered writer has
  passed on to the file before it is flushed. \<^verbatim>\<open>gzip.NewWriterLevel\<close> fails for
  an invalid level only, and \<^verbatim>\<open>gzip.BestCompression\<close> is valid.
\<close>

record osFile =
  content :: string
  mtime :: time
  perm :: nat

type_synonym fileSystem = "string \<Rightarrow> osFile option"

record 'e os =
  randomNames :: "string list"
  openErr :: "'e option"
  existErr :: 'e
  gzipCloseErr :: "'e option"
  flushErr :: "'e option"
  chmodErr :: "'e option"
  closeErr :: "'e option"
  renameErr :: "'e option"
  now :: time
  gzip :: "string \<Rightarrow> string"
  spilled :: nat

text \<open>The producer \<^verbatim>\<open>write\<close> is given the sink, here the payload written to it so
  far, and returns its error and the payload it has written.\<close>

type_synonym 'e producer = "string \<Rightarrow> 'e option \<times> string"

text \<open>\<^verbatim>\<open>ioutil.TempFile(dir, prefix)\<close> opens \<^verbatim>\<open>dir/prefix<random>\<close> with
  \<^verbatim>\<open>O_CREATE|O_EXCL\<close> and mode 0600, trying the next random name when the file exists.\<close>

definition tempCandidates :: "'e os \<Rightarrow> string \<Rightarrow> string \<Rightarrow> string list" where
  "tempCandidates E dir prefix = map (\<lambda>r. filepathJoin [dir, prefix @ r]) (randomNames E)"

definition tempFile :: "'e os \<Rightarrow> fileSystem \<Rightarrow> string \<Rightarrow> string \<Rightarrow> 'e + string \<times> fileSystem" where
  "tempFile E fs dir prefix =
     (case openErr E of
        Some err \<Rightarrow> Inl err
      | None \<Rightarrow>
          (case find (\<lambda>n. fs n = None) (tempCandidates E dir prefix) of
             None \<Rightarrow> Inl (existErr E)
           | Some n \<Rightarrow> Inr (n, fs(n \<mapsto> \<lparr> content = [], mtime = now E, perm = 0x180 \<rparr>))))"

text \<open>\<^verbatim>\<open>os.Rename\<close> when it succeeds: the new path names the file the old path
  named, and the old path names nothing.\<close>

definition osRename :: "fileSystem \<Rightarrow> string \<Rightarrow> string \<Rightarrow> fileSystem" where
  "osRename fs old new = (if old = new then fs else (fs(new := fs old))(old := None))"

text \<open>The steps in the order of the source. An early return leaves the temporary file
  behind with what has reached it (the deferred \<^verbatim>\<open>Close\<close> calls do not remove it);
  after the flush it holds the whole compressed payload. 0x180 is the mode 0600 and
  0x1A4 the mode 0644.\<close>

definition writeAtomically ::
  "'e os \<Rightarrow> fileSystem \<Rightarrow> string \<Rightarrow> 'e producer \<Rightarrow> 'e option \<times> fileSystem" where
  "writeAtomically E fs destPath write =
     (case tempFile E fs (filepathDir destPath) ''debiman-'' of
        Inl err \<Rightarrow> (Some err, fs)
      | Inr (f, fs1) \<Rightarrow>
          (case write [] of
             (werr, payload) \<Rightarrow>
               (let partial = fs1(f \<mapsto> \<lparr> content = take (spilled E) (gzip E payload),
                                          mtime = now E, perm = 0x180 \<rparr>)
                in case werr of
                     Some err \<Rightarrow> (Some err, partial)
                   | None \<Rightarrow>
                 (case gzipCloseErr E of
                     Some err \<Rightarrow> (Some err, partial)
                   | None \<Rightarrow>
                 (case flushErr E of
                     Some err \<Rightarrow> (Some err, partial)
                   | None \<Rightarrow>
                 (let fs2 = fs1(f \<mapsto> \<lparr> content = gzip E payload, mtime = now E, perm = 0x180 \<rparr>)
                  in case chmodErr E of
                     Some err \<Rightarrow> (Some err, fs2)
                   | None \<Rightarrow>
                 (let fs3 = fs1(f \<mapsto> \<lparr> content = gzip E payload, mtime = now E, perm = 0x1A4 \<rparr>)
                  in case closeErr E of
                     Some err \<Rightarrow> (Some err, fs3)
                   | None \<Rightarrow>
                 (case renameErr E of
                     Some err \<Rightarrow> (Some err, fs3)
                   | None \<Rightarrow> (None, osRename fs3 f destPath)))))))))"

section \<open>The collaborators of renderAll\<close>

text \<open>
  \<^verbatim>\<open>renderAll\<close> reads the flags \<^verbatim>\<open>servingDir\<close> and \<^verbatim>\<open>onlyRender\<close>, lists
  directories with \<^verbatim>\<open>ioutil.ReadDir\<close>, and calls into code that is not part of
  \<^verbatim>\<open>render.go\<close>: \<^verbatim>\<open>manpage.FromServingPath\<close>, the method \<^verbatim>\<open>ServingPath\<close>
  and the field \<^verbatim>\<open>Name\<close> of \<^verbatim>\<open>manpage.Meta\<close>, and the three renderers
  \<^verbatim>\<open>rendermanpage\<close>, \<^verbatim>\<open>renderPkgindex\<close> and \<^verbatim>\<open>renderContents\<close>. They are
  parameters of the model: \<open>'m\<close> is the type of \<^verbatim>\<open>manpage.Meta\<close> values and \<open>'e\<close>
  the type of Go \<^verbatim>\<open>error\<close> values other than \<^verbatim>\<open>nil\<close> (an \<open>'e option\<close> is a Go
  \<^verbatim>\<open>error\<close>, \<open>None\<close> being \<^verbatim>\<open>nil\<close>). All directory listings of a pass happen
  before anything is written, so \<open>readDir\<close> is the tree as the pass finds it.
\<close>

type_synonym 'm xrefMap = "(string \<times> 'm list) list"

record 'm renderJob =
  dest :: string
  src :: string
  meta :: 'm
  versions :: "'m list"
  jxref :: "'m xrefMap"

record 'm globalView =
  suites :: "(string \<times> bool) list"
  xref :: "'m xrefMap"

record ('m, 'e) world =
  servingDir :: string
  onlyRender :: string
  readDir :: "string \<Rightarrow> 'e + fileInfo list"
  fromServingPath :: "string \<Rightarrow> string \<Rightarrow> 'e + 'm"
  servingPath :: "'m \<Rightarrow> string"
  metaName :: "'m \<Rightarrow> string"
  rendermanpage :: "'m renderJob \<Rightarrow> 'e option"
  renderPkgindex :: "string \<Rightarrow> (string \<times> 'm) list \<Rightarrow> 'e option"
  renderContents :: "string \<Rightarrow> string \<Rightarrow> string list \<Rightarrow> 'e option"

text \<open>Reading a Go map at a key it does not hold gives the zero value of the element
  type: \<^verbatim>\<open>false\<close> for \<^verbatim>\<open>gv.suites\<close>, the \<^verbatim>\<open>nil\<close> slice for \<^verbatim>\<open>gv.xref\<close>.\<close>

definition suiteKnown :: "'m globalView \<Rightarrow> string \<Rightarrow> bool" where
  "suiteKnown gv s = (case map_of (suites gv) s of None \<Rightarrow> False | Some b \<Rightarrow> b)"

definition xrefLookup :: "'m globalView \<Rightarrow> string \<Rightarrow> 'm list" where
  "xrefLookup gv n = (case map_of (xref gv) n of None \<Rightarrow> [] | Some vs \<Rightarrow> vs)"

section \<open>renderAll: the directory inventory (lines 83 to 112)\<close>

text \<open>The maps \<^verbatim>\<open>contents\<close> and \<^verbatim>\<open>binsBySuite\<close> are association lists with
  distinct keys; an assignment to a key replaces its entry.\<close>

type_synonym inventory = "(string \<times> fileInfo list) list \<times> (string \<times> string list) list"

text \<open>The inner loop over the entries of one suite directory: every entry is listed,
  whatever its kind, and a listing error returns at once.\<close>

fun gatherBins ::
  "('m, 'e) world \<Rightarrow> string \<Rightarrow> fileInfo list \<Rightarrow> (string \<times> fileInfo list) list
     \<Rightarrow> 'e + (string \<times> fileInfo list) list" where
  "gatherBins W suite [] contents = Inr contents"
| "gatherBins W suite (bfi # bins) contents =
     (let dir = filepathJoin [servingDir W, suite, Name bfi] in
      case readDir W dir of
        Inl err \<Rightarrow> Inl err
      | Inr files \<Rightarrow> gatherBins W suite bins (AList.update dir files contents))"

text \<open>The outer loop over the entries of the serving directory.\<close>

fun gatherSuites ::
  "('m, 'e) world \<Rightarrow> 'm globalView \<Rightarrow> fileInfo list \<Rightarrow> inventory \<Rightarrow> 'e + inventory" where
  "gatherSuites W gv [] acc = Inr acc"
| "gatherSuites W gv (sfi # suitedirs) (contents, binsBySuite) =
     (if \<not> IsDir sfi then gatherSuites W gv suitedirs (contents, binsBySuite)
      else if \<not> suiteKnown gv (Name sfi) then gatherSuites W gv suitedirs (contents, binsBySuite)
      else
        (case readDir W (filepathJoin [servingDir W, Name sfi]) of
           Inl err \<Rightarrow> Inl err
         | Inr bins \<Rightarrow>
             (case gatherBins W (Name sfi) bins contents of
                Inl err \<Rightarrow> Inl err
              | Inr contents' \<Rightarrow>
                  gatherSuites W gv suitedirs
                    (contents', AList.update (Name sfi) (map Name bins) binsBySuite))))"

definition gatherContents :: "('m, 'e) world \<Rightarrow> 'm globalView \<Rightarrow> 'e + inventory" where
  "gatherContents W gv =
     (case readDir W (servingDir W) of
        Inl err \<Rightarrow> Inl err
      | Inr suitedirs \<Rightarrow> gatherSuites W gv suitedirs ([], []))"

section \<open>renderAll: the staleness scan of one directory (lines 156 to 226)\<close>

text \<open>What the loop body does besides computing: it logs a warning, offers a job on
  \<^verbatim>\<open>renderChan\<close> (the \<^verbatim>\<open>select\<close> of lines 206 to 216), and, after the loop over
  the files, calls \<^verbatim>\<open>renderPkgindex\<close>. The scan itself reads only the listing
  gathered before, so the actions of one directory are computed first and performed
  by the scheduler below.\<close>

datatype ('m, 'e) action =
    Warn string 'e
  | Offer "'m renderJob"
  | Pkgindex string "(string \<times> 'm) list"

record ('m, 'e) scan =
  manpageByName :: "(string \<times> 'm) list"
  indexNeedsUpdate :: bool
  body :: "('m, 'e) action list"

definition fileByNameOf :: "fileInfo list \<Rightarrow> string \<Rightarrow> fileInfo option" where
  "fileByNameOf files = fold (\<lambda>f m. m(Name f \<mapsto> f)) files Map.empty"

definition indexModTimeOf :: "fileInfo list \<Rightarrow> time" where
  "indexModTimeOf files =
     (case fileByNameOf files ''index.html.gz'' of
        Some fi \<Rightarrow> ModTime fi
      | None \<Rightarrow> zeroTime)"

text \<open>Lines 171 to 177: the entries the loop does not skip.\<close>

definition isSource :: "string \<Rightarrow> fileInfo \<Rightarrow> bool" where
  "isSource dir f =
     (let full = filepathJoin [dir, Name f] in
      \<not> (\<not> hasSuffix full ''.gz'' \<or> hasSuffix full ''.html.gz''))"

definition isSymlink :: "fileInfo \<Rightarrow> bool" where
  "isSymlink f = (Mode f AND ModeSymlink \<noteq> 0)"

text \<open>Lines 196 to 205: the parsed value is replaced by the first element of
  \<^verbatim>\<open>versions\<close> with the same serving path, if there is one.\<close>

definition canonicalMeta :: "('m, 'e) world \<Rightarrow> 'm list \<Rightarrow> 'm \<Rightarrow> 'm" where
  "canonicalMeta W vs m =
     (case find (\<lambda>v. servingPath W v = servingPath W m) vs of
        None \<Rightarrow> m
      | Some v \<Rightarrow> v)"

definition htmlName :: "fileInfo \<Rightarrow> string" where
  "htmlName f = trimSuffix (Name f) ''.gz'' @ ''.html.gz''"

definition needsRender :: "(string \<Rightarrow> fileInfo option) \<Rightarrow> fileInfo \<Rightarrow> bool" where
  "needsRender fileByName f =
     (case fileByName (htmlName f) of
        None \<Rightarrow> True
      | Some html \<Rightarrow> Before (ModTime html) (ModTime f))"

definition jobFor :: "('m, 'e) world \<Rightarrow> 'm globalView \<Rightarrow> string \<Rightarrow> fileInfo \<Rightarrow> 'm \<Rightarrow> 'm renderJob" where
  "jobFor W gv dir f m =
     (let vs = xrefLookup gv (metaName W m) in
      \<lparr> dest = filepathJoin [dir, htmlName f],
        src = filepathJoin [dir, Name f],
        meta = canonicalMeta W vs m,
        versions = vs,
        jxref = xref gv \<rparr>)"

text \<open>Line 183: the call of \<^verbatim>\<open>manpage.FromServingPath\<close> on the full path of an
  entry.\<close>

definition parsed :: "('m, 'e) world \<Rightarrow> string \<Rightarrow> fileInfo \<Rightarrow> 'e + 'm" where
  "parsed W dir f = fromServingPath W (servingDir W) (filepathJoin [dir, Name f])"

text \<open>The body of the loop over the files of a directory (lines 169 to 218).\<close>

definition scanFile ::
  "('m, 'e) world \<Rightarrow> 'm globalView \<Rightarrow> string \<Rightarrow> (string \<Rightarrow> fileInfo option) \<Rightarrow> time
     \<Rightarrow> fileInfo \<Rightarrow> ('m, 'e) scan \<Rightarrow> ('m, 'e) scan" where
  "scanFile W gv dir fileByName indexModTime f st =
     (if \<not> isSource dir f then st
      else if isSymlink f then st
      else
        (let st1 = (if After (ModTime f) indexModTime
                    then st\<lparr>indexNeedsUpdate := True\<rparr> else st)
         in case parsed W dir f of
              Inl err \<Rightarrow> st1\<lparr>body := body st1 @ [Warn (filepathJoin [dir, Name f]) err]\<rparr>
            | Inr m \<Rightarrow>
                (let st2 = st1\<lparr>manpageByName := AList.update (Name f) m (manpageByName st1)\<rparr>
                 in if needsRender fileByName f
                    then st2\<lparr>body := body st2 @ [Offer (jobFor W gv dir f m)]\<rparr>
                    else st2)))"

definition scanFiles ::
  "('m, 'e) world \<Rightarrow> 'm globalView \<Rightarrow> string \<Rightarrow> (string \<Rightarrow> fileInfo option) \<Rightarrow> time
     \<Rightarrow> fileInfo list \<Rightarrow> ('m, 'e) scan \<Rightarrow> ('m, 'e) scan" where
  "scanFiles W gv dir fileByName indexModTime files st =
     fold (scanFile W gv dir fileByName indexModTime) files st"

definition scanDir ::
  "('m, 'e) world \<Rightarrow> 'm globalView \<Rightarrow> string \<Rightarrow> fileInfo list \<Rightarrow> ('m, 'e) scan" where
  "scanDir W gv dir files =
     scanFiles W gv dir (fileByNameOf files) (indexModTimeOf files) files
       \<lparr> manpageByName = [], indexNeedsUpdate = False, body = [] \<rparr>"

text \<open>Lines 220 to 226: the index page is rendered right after the loop over the files
  when the flag is set.\<close>

definition dirBody ::
  "('m, 'e) world \<Rightarrow> 'm globalView \<Rightarrow> string \<Rightarrow> fileInfo list \<Rightarrow> ('m, 'e) action list" where
  "dirBody W gv dir files =
     (let st = scanDir W gv dir files in
      body st @
      (if \<not> indexNeedsUpdate st then []
       else [Pkgindex (filepathJoin [dir, ''index.html.gz'']) (manpageByName st)]))"

text \<open>The jobs among the actions of a loop body, in the order they are offered.\<close>

fun offered :: "('m, 'e) action list \<Rightarrow> 'm renderJob list" where
  "offered [] = []"
| "offered (Offer j # as) = j # offered as"
| "offered (a # as) = offered as"


text \<open>Lines 138 to 147 and 152: the restriction to some binary packages. The lines
  that log the restriction are left out.\<close>

definition whitelist :: "('m, 'e) world \<Rightarrow> string list option" where
  "whitelist W =
     (if onlyRender W \<noteq> [] then Some (splitOn CHR '','' (trimSpace (onlyRender W)))
      else None)"

definition skippedDir :: "('m, 'e) world \<Rightarrow> string \<Rightarrow> bool" where
  "skippedDir W dir =
     (case whitelist W of
        None \<Rightarrow> False
      | Some wl \<Rightarrow> filepathBase dir \<notin> set wl)"

section \<open>renderAll: the worker pool and the order of events\<close>

text \<open>
  \<^verbatim>\<open>renderAll\<close> is one producer (the calling goroutine, lines 151 to 237) and thirty
  workers (lines 125 to 137) that receive from the unbuffered channel
  \<^verbatim>\<open>renderChan\<close>. The model is an interleaving of their steps. A worker is waiting
  in \<^verbatim>\<open>range renderChan\<close>, inside \<^verbatim>\<open>rendermanpage\<close> with a job, or has returned.
  A call of a renderer is one step, taken when the call returns.
\<close>

datatype 'm wstate = Idle | Busy "'m renderJob" | Exited

text \<open>What an observer of a pass sees, in the order it happens. \<open>Sent w j\<close> is the
  handoff of job \<open>j\<close> to worker \<open>w\<close>; \<open>Skipped j\<close> is the \<^verbatim>\<open>select\<close> taking
  \<^verbatim>\<open>ctx.Done()\<close> instead; \<open>RenderedManpage w j r\<close> is the return of worker \<open>w\<close>'s
  call of \<^verbatim>\<open>rendermanpage\<close> with result \<open>r\<close>; \<open>Waited r\<close> is the return of
  \<^verbatim>\<open>eg.Wait()\<close>.\<close>

datatype ('m, 'e) event =
    Warned string 'e
  | Sent nat "'m renderJob"
  | Skipped "'m renderJob"
  | RenderedManpage nat "'m renderJob" "'e option"
  | RenderedPkgindex string "(string \<times> 'm) list" "'e option"
  | ClosedChan
  | Waited "'e option"
  | RenderedContents string string "string list" "'e option"

text \<open>Where the producer stands: in the loop over \<^verbatim>\<open>contents\<close> (lines 151 to 227),
  in \<^verbatim>\<open>eg.Wait()\<close> after closing the channel (lines 228 to 231), in the loop over
  \<^verbatim>\<open>binsBySuite\<close> with the suites still to visit (lines 233 to 237), or returned.\<close>

datatype 'e pc =
    Scanning
  | Waiting
  | Listing "(string \<times> string list) list"
  | Returned "'e option"

text \<open>\<open>todo\<close> holds the directories the \<^verbatim>\<open>range\<close> over the map \<^verbatim>\<open>contents\<close>
  has not visited yet (Go visits the keys of a map in an unspecified order), \<open>cur\<close>
  what is left of the loop body for the directory being visited, and \<open>ctxErr\<close> the
  error the \<^verbatim>\<open>errgroup\<close> has recorded: the context \<^verbatim>\<open>ctx\<close> is done exactly when
  it is not \<open>None\<close>.\<close>

record ('m, 'e) config =
  todo :: "(string \<times> fileInfo list) list"
  cur :: "('m, 'e) action list"
  workers :: "'m wstate list"
  ctxErr :: "'e option"
  binsBySuite :: "(string \<times> string list) list"
  pc :: "'e pc"
  trace :: "('m, 'e) event list"

definition removeAt :: "nat \<Rightarrow> 'a list \<Rightarrow> 'a list" where
  "removeAt i xs = take i xs @ drop (Suc i) xs"

text \<open>Lines 83 to 137: a listing error returns before the workers are started.\<close>

definition renderAllStart :: "('m, 'e) world \<Rightarrow> 'm globalView \<Rightarrow> ('m, 'e) config" where
  "renderAllStart W gv =
     (case gatherContents W gv of
        Inl err \<Rightarrow>
          \<lparr> todo = [], cur = [], workers = [], ctxErr = None, binsBySuite = [],
            pc = Returned (Some err), trace = [] \<rparr>
      | Inr (contents, bins) \<Rightarrow>
          \<lparr> todo = contents, cur = [], workers = replicate 30 Idle, ctxErr = None,
            binsBySuite = bins, pc = Scanning, trace = [] \<rparr>)"

text \<open>Line 151 and 152: the loop takes some directory not visited yet.\<close>

definition pickDir :: "('m, 'e) world \<Rightarrow> 'm globalView \<Rightarrow> ('m, 'e) config \<Rightarrow> nat \<Rightarrow> ('m, 'e) config" where
  "pickDir W gv c i =
     (case todo c ! i of
        (dir, files) \<Rightarrow>
          c\<lparr> todo := removeAt i (todo c),
             cur := (if skippedDir W dir then [] else dirBody W gv dir files) \<rparr>)"

text \<open>Lines 206 to 216: the send proceeds when a worker is waiting to receive; the
  other case proceeds when the context is done. When both can proceed Go chooses one
  of them at random. The \<^verbatim>\<open>break\<close> of line 215 leaves the \<^verbatim>\<open>select\<close> only, so in
  both cases the loop over the files goes on.\<close>

definition sendTo :: "('m, 'e) config \<Rightarrow> 'm renderJob \<Rightarrow> ('m, 'e) action list \<Rightarrow> nat \<Rightarrow> ('m, 'e) config list" where
  "sendTo c j rest w =
     (case workers c ! w of
        Idle \<Rightarrow> [c\<lparr> cur := rest, workers := (workers c)[w := Busy j],
                    trace := trace c @ [Sent w j] \<rparr>]
      | _ \<Rightarrow> [])"

definition offerSteps :: "('m, 'e) config \<Rightarrow> 'm renderJob \<Rightarrow> ('m, 'e) action list \<Rightarrow> ('m, 'e) config list" where
  "offerSteps c j rest =
     concat (map (sendTo c j rest) [0..<length (workers c)]) @
     (case ctxErr c of
        None \<Rightarrow> []
      | Some _ \<Rightarrow> [c\<lparr> cur := rest, trace := trace c @ [Skipped j] \<rparr>])"

text \<open>Lines 224 to 226.\<close>

definition pkgindexStep ::
  "('m, 'e) world \<Rightarrow> ('m, 'e) config \<Rightarrow> string \<Rightarrow> (string \<times> 'm) list \<Rightarrow> ('m, 'e) action list
     \<Rightarrow> ('m, 'e) config" where
  "pkgindexStep W c d m rest =
     (case renderPkgindex W d m of
        None \<Rightarrow> c\<lparr> cur := rest, trace := trace c @ [RenderedPkgindex d m None] \<rparr>
      | Some err \<Rightarrow> c\<lparr> pc := Returned (Some err),
                       trace := trace c @ [RenderedPkgindex d m (Some err)] \<rparr>)"

definition producerSteps :: "('m, 'e) world \<Rightarrow> 'm globalView \<Rightarrow> ('m, 'e) config \<Rightarrow> ('m, 'e) config list" where
  "producerSteps W gv c =
     (case cur c of
        [] \<Rightarrow>
          (if todo c = [] then [c\<lparr> pc := Waiting, trace := trace c @ [ClosedChan] \<rparr>]
           else map (pickDir W gv c) [0..<length (todo c)])
      | Warn p err # rest \<Rightarrow> [c\<lparr> cur := rest, trace := trace c @ [Warned p err] \<rparr>]
      | Offer j # rest \<Rightarrow> offerSteps c j rest
      | Pkgindex d m # rest \<Rightarrow> [pkgindexStep W c d m rest])"

text \<open>Lines 127 to 135: the call of \<^verbatim>\<open>rendermanpage\<close> returns. On \<^verbatim>\<open>nil\<close> the
  worker receives again; on an error it returns the error, and the \<^verbatim>\<open>errgroup\<close>
  records the first error returned and cancels the context.\<close>

definition finish :: "('m, 'e) world \<Rightarrow> ('m, 'e) config \<Rightarrow> nat \<Rightarrow> ('m, 'e) config list" where
  "finish W c w =
     (case workers c ! w of
        Busy j \<Rightarrow>
          (let r = rendermanpage W j in
           [c\<lparr> workers := (workers c)[w := (case r of None \<Rightarrow> Idle | Some _ \<Rightarrow> Exited)],
               ctxErr := (case ctxErr c of None \<Rightarrow> r | Some first \<Rightarrow> Some first),
               trace := trace c @ [RenderedManpage w j r] \<rparr>])
      | _ \<Rightarrow> [])"

definition workerSteps :: "('m, 'e) world \<Rightarrow> ('m, 'e) config \<Rightarrow> ('m, 'e) config list" where
  "workerSteps W c = concat (map (finish W c) [0..<length (workers c)])"

definition isBusy :: "'m wstate \<Rightarrow> bool" where
  "isBusy s = (case s of Busy _ \<Rightarrow> True | _ \<Rightarrow> False)"

text \<open>Lines 228 to 231: the channel is closed, so a waiting worker returns
  \<^verbatim>\<open>nil\<close>; \<^verbatim>\<open>eg.Wait()\<close> returns when no worker is left in a call, with the
  first error recorded.\<close>

definition waitSteps :: "('m, 'e) config \<Rightarrow> ('m, 'e) config list" where
  "waitSteps c =
     (if list_ex isBusy (workers c) then []
      else (case ctxErr c of
              None \<Rightarrow> [c\<lparr> pc := Listing (binsBySuite c), trace := trace c @ [Waited None] \<rparr>]
            | Some err \<Rightarrow> [c\<lparr> pc := Returned (Some err),
                              trace := trace c @ [Waited (Some err)] \<rparr>]))"

text \<open>Lines 233 to 239.\<close>

definition contentsPath :: "('m, 'e) world \<Rightarrow> string \<Rightarrow> string" where
  "contentsPath W suite = filepathJoin [servingDir W, ''contents-'' @ suite @ ''.html.gz'']"

definition contentsStep ::
  "('m, 'e) world \<Rightarrow> ('m, 'e) config \<Rightarrow> (string \<times> string list) list \<Rightarrow> nat \<Rightarrow> ('m, 'e) config" where
  "contentsStep W c ss i =
     (case ss ! i of
        (suite, bins) \<Rightarrow>
          (case renderContents W (contentsPath W suite) suite bins of
             None \<Rightarrow>
               c\<lparr> pc := Listing (removeAt i ss),
                  trace := trace c @ [RenderedContents (contentsPath W suite) suite bins None] \<rparr>
           | Some err \<Rightarrow>
               c\<lparr> pc := Returned (Some err),
                  trace := trace c @ [RenderedContents (contentsPath W suite) suite bins (Some err)] \<rparr>))"

definition listingSteps ::
  "('m, 'e) world \<Rightarrow> ('m, 'e) config \<Rightarrow> (string \<times> string list) list \<Rightarrow> ('m, 'e) config list" where
  "listingSteps W c ss =
     (if ss = [] then [c\<lparr> pc := Returned None \<rparr>]
      else map (contentsStep W c ss) [0..<length ss])"

text \<open>All the configurations one step of some goroutine leads to. After the return of
  \<^verbatim>\<open>renderAll\<close> nothing more is observed.\<close>

definition renderAllSteps :: "('m, 'e) world \<Rightarrow> 'm globalView \<Rightarrow> ('m, 'e) config \<Rightarrow> ('m, 'e) config list" where
  "renderAllSteps W gv c =
     (case pc c of
        Scanning \<Rightarrow> producerSteps W gv c @ workerSteps W c
      | Waiting \<Rightarrow> waitSteps c @ workerSteps W c
      | Listing ss \<Rightarrow> listingSteps W c ss
      | Returned r \<Rightarrow> [])"

text \<open>The configurations a pass can reach.\<close>

inductive runs :: "('m, 'e) world \<Rightarrow> 'm globalView \<Rightarrow> ('m, 'e) config \<Rightarrow> bool"
  for W :: "('m, 'e) world" and gv :: "'m globalView" where
  start: "runs W gv (renderAllStart W gv)"
| step: "runs W gv c \<Longrightarrow> c' \<in> set (renderAllSteps W gv c) \<Longrightarrow> runs W gv c'"

code_pred runs .

text \<open>One execution, given by the choice made at each step among the steps possible;
  \<open>None\<close> when a choice names no step.\<close>

fun runSchedule ::
  "('m, 'e) world \<Rightarrow> 'm globalView \<Rightarrow> nat list \<Rightarrow> ('m, 'e) config \<Rightarrow> ('m, 'e) config option" where
  "runSchedule W gv [] c = Some c"
| "runSchedule W gv (i # is) c =
     (if i < length (renderAllSteps W gv c)
      then runSchedule W gv is (renderAllSteps W gv c ! i)
      else None)"

subsection \<open>Orders on a trace\<close>

text \<open>\<open>precedes P Q tr\<close>: in \<open>tr\<close> no event satisfying \<open>P\<close> comes after an event
  satisfying \<open>Q\<close>.\<close>

fun precedes :: "('a \<Rightarrow> bool) \<Rightarrow> ('a \<Rightarrow> bool) \<Rightarrow> 'a list \<Rightarrow> bool" where
  "precedes P Q [] = True"
| "precedes P Q (x # xs) = ((\<not> Q x \<or> \<not> list_ex P xs) \<and> precedes P Q xs)"

definition isSent :: "('m, 'e) event \<Rightarrow> bool" where
  "isSent ev = (case ev of Sent _ _ \<Rightarrow> True | _ \<Rightarrow> False)"

definition isSentTo :: "nat \<Rightarrow> ('m, 'e) event \<Rightarrow> bool" where
  "isSentTo w ev = (case ev of Sent w' _ \<Rightarrow> w' = w | _ \<Rightarrow> False)"

definition isSkipped :: "('m, 'e) event \<Rightarrow> bool" where
  "isSkipped ev = (case ev of Skipped _ \<Rightarrow> True | _ \<Rightarrow> False)"

definition isRenderedManpage :: "('m, 'e) event \<Rightarrow> bool" where
  "isRenderedManpage ev = (case ev of RenderedManpage _ _ _ \<Rightarrow> True | _ \<Rightarrow> False)"

definition isFailureOf :: "nat \<Rightarrow> ('m, 'e) event \<Rightarrow> bool" where
  "isFailureOf w ev = (case ev of RenderedManpage w' _ (Some _) \<Rightarrow> w' = w | _ \<Rightarrow> False)"

definition isRenderedPkgindex :: "('m, 'e) event \<Rightarrow> bool" where
  "isRenderedPkgindex ev = (case ev of RenderedPkgindex _ _ _ \<Rightarrow> True | _ \<Rightarrow> False)"

definition isClosedChan :: "('m, 'e) event \<Rightarrow> bool" where
  "isClosedChan ev = (case ev of ClosedChan \<Rightarrow> True | _ \<Rightarrow> False)"

definition isWaited :: "('m, 'e) event \<Rightarrow> bool" where
  "isWaited ev = (case ev of Waited _ \<Rightarrow> True | _ \<Rightarrow> False)"

definition isRenderedContents :: "('m, 'e) event \<Rightarrow> bool" where
  "isRenderedContents ev = (case ev of RenderedContents _ _ _ _ \<Rightarrow> True | _ \<Rightarrow> False)"

text \<open>A call of \<^verbatim>\<open>rendermanpage\<close> or \<^verbatim>\<open>renderPkgindex\<close> that returned an
  error.\<close>

definition isFailedRender :: "('m, 'e) event \<Rightarrow> bool" where
  "isFailedRender ev =
     (case ev of
        RenderedManpage _ _ (Some _) \<Rightarrow> True
      | RenderedPkgindex _ _ (Some _) \<Rightarrow> True
      | _ \<Rightarrow> False)"

text \<open>An event of a renderer's return carries the result the renderer gave.\<close>

definition truthful :: "('m, 'e) world \<Rightarrow> ('m, 'e) event \<Rightarrow> bool" where
  "truthful W ev =
     (case ev of
        RenderedManpage _ j r \<Rightarrow> r = rendermanpage W j
      | RenderedPkgindex d m r \<Rightarrow> r = renderPkgindex W d m
      | RenderedContents d s b r \<Rightarrow> r = renderContents W d s b
      | _ \<Rightarrow> True)"

text \<open>The error of the first call of \<^verbatim>\<open>rendermanpage\<close> that failed.\<close>

fun firstRenderError :: "('m, 'e) event list \<Rightarrow> 'e option" where
  "firstRenderError [] = None"
| "firstRenderError (RenderedManpage w j (Some err) # tr) = Some err"
| "firstRenderError (ev # tr) = firstRenderError tr"

subsection \<open>The jobs of a pass\<close>

text \<open>The jobs the \<^verbatim>\<open>select\<close> of lines 206 to 216 has handed to a worker, and the
  jobs for which it has taken \<^verbatim>\<open>ctx.Done()\<close>, in the order of the trace.\<close>

fun sentJobs :: "('m, 'e) event list \<Rightarrow> 'm renderJob list" where
  "sentJobs [] = []"
| "sentJobs (Sent w j # tr) = j # sentJobs tr"
| "sentJobs (ev # tr) = sentJobs tr"

fun droppedJobs :: "('m, 'e) event list \<Rightarrow> 'm renderJob list" where
  "droppedJobs [] = []"
| "droppedJobs (Skipped j # tr) = j # droppedJobs tr"
| "droppedJobs (ev # tr) = droppedJobs tr"

text \<open>What the loop does for one entry of \<^verbatim>\<open>contents\<close> (lines 151 to 226): nothing
  when the directory is not among the packages of \<^verbatim>\<open>onlyRender\<close>, the loop body
  otherwise. \<open>dirJobs\<close> are the jobs offered for the directory, \<open>staleJobs\<close> the jobs of
  all the directories of the inventory.\<close>

definition bodyOf ::
  "('m, 'e) world \<Rightarrow> 'm globalView \<Rightarrow> string \<times> fileInfo list \<Rightarrow> ('m, 'e) action list" where
  "bodyOf W gv d =
     (case d of (dir, files) \<Rightarrow> if skippedDir W dir then [] else dirBody W gv dir files)"

definition dirJobs ::
  "('m, 'e) world \<Rightarrow> 'm globalView \<Rightarrow> string \<times> fileInfo list \<Rightarrow> 'm renderJob list" where
  "dirJobs W gv d = offered (bodyOf W gv d)"

definition staleJobs :: "('m, 'e) world \<Rightarrow> 'm globalView \<Rightarrow> 'm renderJob list" where
  "staleJobs W gv =
     (case gatherContents W gv of
        Inl _ \<Rightarrow> []
      | Inr (contents, bins) \<Rightarrow> concat (map (dirJobs W gv) contents))"

subsection \<open>The length of a pass\<close>

text \<open>A bound on the number of steps a configuration has before it: every action left
  in the loop counts twice (a job sent is a call of \<^verbatim>\<open>rendermanpage\<close> to return),
  every worker inside a call once, and so do the close of the channel, the return of
  \<^verbatim>\<open>eg.Wait()\<close>, every listing page and the return.\<close>

definition busy :: "'m wstate list \<Rightarrow> nat" where
  "busy ws = length (filter isBusy ws)"

definition stepsLeft :: "('m, 'e) world \<Rightarrow> 'm globalView \<Rightarrow> ('m, 'e) config \<Rightarrow> nat" where
  "stepsLeft W gv c =
     (case pc c of
        Scanning \<Rightarrow>
          3 + length (binsBySuite c) + busy (workers c) +
          2 * (length (cur c) + sum_list (map (\<lambda>d. Suc (length (bodyOf W gv d))) (todo c)))
      | Waiting \<Rightarrow> 2 + length (binsBySuite c) + busy (workers c)
      | Listing ss \<Rightarrow> 1 + length ss
      | Returned r \<Rightarrow> 0)"

section \<open>Trees that are up to date\<close>

text \<open>The invariant stated before the loop (lines 149 and 150), for one directory as
  the scan reads it: no source that parses needs rendering, and no source is newer
  than the index page.\<close>

definition isWarn :: "('m, 'e) action \<Rightarrow> bool" where
  "isWarn a = (case a of Warn _ _ \<Rightarrow> True | _ \<Rightarrow> False)"

definition freshFile :: "('m, 'e) world \<Rightarrow> string \<Rightarrow> fileInfo list \<Rightarrow> fileInfo \<Rightarrow> bool" where
  "freshFile W dir files f =
     (\<not> isSource dir f \<or> isSymlink f \<or>
      (\<not> After (ModTime f) (indexModTimeOf files) \<and>
       (case parsed W dir f of
          Inl _ \<Rightarrow> True
        | Inr _ \<Rightarrow> \<not> needsRender (fileByNameOf files) f)))"

definition upToDate :: "('m, 'e) world \<Rightarrow> string \<times> fileInfo list \<Rightarrow> bool" where
  "upToDate W d = (case d of (dir, files) \<Rightarrow> list_all (freshFile W dir files) files)"

definition freshTree :: "('m, 'e) world \<Rightarrow> 'm globalView \<Rightarrow> bool" where
  "freshTree W gv =
     (case gatherContents W gv of
        Inl _ \<Rightarrow> False
      | Inr (contents, bins) \<Rightarrow> list_all (upToDate W) contents)"

section \<open>A small tree to run the pass on\<close>

text \<open>The serving directory \<^verbatim>\<open>/srv/man\<close> holds a file, the suite directory
  \<^verbatim>\<open>main\<close> and a directory that is no suite; the suite holds the given packages.
  Listing a path of \<open>failing\<close> fails, and so does rendering to a path of
  \<open>failing\<close>. A \<^verbatim>\<open>manpage.Meta\<close> is stood for by its path below the serving
  directory; names ending in \<^verbatim>\<open>.x.gz\<close> do not parse.\<close>

definition exDir :: "string \<Rightarrow> fileInfo" where
  "exDir n = \<lparr> Name = n, ModTime = 1, Mode = ModeDir OR 0x1ED \<rparr>"

definition exFile :: "string \<Rightarrow> time \<Rightarrow> fileInfo" where
  "exFile n t = \<lparr> Name = n, ModTime = t, Mode = 0x1A4 \<rparr>"

definition exLink :: "string \<Rightarrow> time \<Rightarrow> fileInfo" where
  "exLink n t = \<lparr> Name = n, ModTime = t, Mode = ModeSymlink OR 0x1FF \<rparr>"

definition exReadDir ::
  "(string \<times> fileInfo list) list \<Rightarrow> string list \<Rightarrow> string \<Rightarrow> string + fileInfo list" where
  "exReadDir pkgs failing path =
     (if path \<in> set failing then Inl (''open '' @ path @ '': permission denied'')
      else if path = ''/srv/man''
        then Inr [exFile ''README'' 5, exDir ''lost+found'', exDir ''main'']
      else if path = ''/srv/man/main'' then Inr (map (\<lambda>(n, fs). exDir n) pkgs)
      else (case map_of (map (\<lambda>(n, fs). (''/srv/man/main/'' @ n, fs)) pkgs) path of
              Some fs \<Rightarrow> Inr fs
            | None \<Rightarrow> Inl (''open '' @ path @ '': no such file or directory'')))"

definition exParse :: "string \<Rightarrow> string \<Rightarrow> string + string" where
  "exParse root full =
     (if hasSuffix full ''.x.gz'' then Inl ''unexpected section''
      else Inr (drop (Suc (length root)) full))"

definition exDiskFull :: "string list \<Rightarrow> string \<Rightarrow> string option" where
  "exDiskFull failing d =
     (if d \<in> set failing then Some (''write '' @ d @ '': no space left on device'') else None)"

definition exWorld ::
  "(string \<times> fileInfo list) list \<Rightarrow> string \<Rightarrow> string list \<Rightarrow> (string, string) world" where
  "exWorld pkgs only failing =
     \<lparr> servingDir = ''/srv/man'', onlyRender = only, readDir = exReadDir pkgs failing,
       fromServingPath = exParse, servingPath = (\<lambda>m. m),
       metaName = (\<lambda>m. trimSuffix (filepathBase m) ''.gz''),
       rendermanpage = (\<lambda>j. exDiskFull failing (dest j)),
       renderPkgindex = (\<lambda>d m. exDiskFull failing d),
       renderContents = (\<lambda>d s b. exDiskFull failing d) \<rparr>"

definition exGv :: "string globalView" where
  "exGv = \<lparr> suites = [(''main'', True)],
            xref = [(''foo.1'', [''testing/foo/foo.1.gz'', ''main/foo/foo.1.gz''])] \<rparr>"

definition exRun ::
  "(string \<times> fileInfo list) list \<Rightarrow> string \<Rightarrow> string list \<Rightarrow> nat list
     \<Rightarrow> (string, string) config option" where
  "exRun pkgs only failing sched =
     runSchedule (exWorld pkgs only failing) exGv sched
       (renderAllStart (exWorld pkgs only failing) exGv)"

text \<open>A package whose page \<^verbatim>\<open>foo.1\<close> was never rendered and whose page
  \<^verbatim>\<open>bar.1\<close> is rendered and fresh, with a symbolic link, a name that does not
  parse and no index page.\<close>

definition exStaleFiles :: "fileInfo list" where
  "exStaleFiles =
     [exFile ''bar.1.gz'' 50, exFile ''bar.1.html.gz'' 60, exFile ''foo.1.gz'' 100,
      exLink ''link.1.gz'' 500, exFile ''odd.x.gz'' 70]"

text \<open>The second scenario of the specification: the page rendered after its source,
  the index after the page.\<close>

definition exFreshFiles :: "fileInfo list" where
  "exFreshFiles =
     [exFile ''foo.1.gz'' 100, exFile ''foo.1.html.gz'' 200, exFile ''index.html.gz'' 300]"

text \<open>A package with two pages to render.\<close>

definition exTwoFiles :: "fileInfo list" where
  "exTwoFiles = [exFile ''foo.1.gz'' 100, exFile ''foo.2.gz'' 100]"

definition exFooDir :: string where
  "exFooDir = ''/srv/man/main/foo''"

definition exStaleWorld :: "(string, string) world" where
  "exStaleWorld = exWorld [(''foo'', exStaleFiles)] [] []"

definition exFreshWorld :: "(string, string) world" where
  "exFreshWorld = exWorld [(''foo'', exFreshFiles)] [] []"

text \<open>A package in which only a name that does not parse is newer than the index
  page.\<close>

definition exOddFiles :: "fileInfo list" where
  "exOddFiles = [exFile ''index.html.gz'' 60, exFile ''odd.x.gz'' 70]"

definition exOddWorld :: "(string, string) world" where
  "exOddWorld = exWorld [(''foo'', exOddFiles)] [] []"

text \<open>The configuration a schedule leads to (the start when the schedule names a step
  that does not exist).\<close>

definition exConfig ::
  "(string \<times> fileInfo list) list \<Rightarrow> string \<Rightarrow> string list \<Rightarrow> nat list
     \<Rightarrow> (string, string) config" where
  "exConfig pkgs only failing sched =
     (case exRun pkgs only failing sched of
        Some c \<Rightarrow> c
      | None \<Rightarrow> renderAllStart (exWorld pkgs only failing) exGv)"

definition exJob :: "string \<Rightarrow> string list \<Rightarrow> string renderJob" where
  "exJob page vs =
     \<lparr> dest = ''/srv/man/main/foo/'' @ page @ ''.html.gz'',
       src = ''/srv/man/main/foo/'' @ page @ ''.gz'',
       meta = ''main/foo/'' @ page @ ''.gz'',
       versions = vs,
       jxref = xref exGv \<rparr>"

text \<open>The pass over the stale package after four steps, and at its end.\<close>

definition exIndexEarly :: "(string, string) config" where
  "exIndexEarly = exConfig [(''foo'', exStaleFiles)] [] [] [0, 0, 0, 0]"

definition exStaleDone :: "(string, string) config" where
  "exStaleDone = exConfig [(''foo'', exStaleFiles)] [] [] [0, 0, 0, 0, 0, 0, 0, 0, 0]"

text \<open>The pass over the fresh package at its end.\<close>

definition exFreshDone :: "(string, string) config" where
  "exFreshDone = exConfig [(''foo'', exFreshFiles)] [] [] [0, 0, 0, 0, 0]"

text \<open>The pass over the package with two pages when rendering \<^verbatim>\<open>foo.1\<close> fails:
  after the failure and one more step, and at its end.\<close>

definition exTwoWorld :: "(string, string) world" where
  "exTwoWorld = exWorld [(''foo'', exTwoFiles)] [] [''/srv/man/main/foo/foo.1.html.gz'']"

definition exAfterFailure :: "(string, string) config" where
  "exAfterFailure =
     exConfig [(''foo'', exTwoFiles)] [] [''/srv/man/main/foo/foo.1.html.gz''] [0, 0, 29, 0]"

definition exFailedDone :: "(string, string) config" where
  "exFailedDone =
     exConfig [(''foo'', exTwoFiles)] [] [''/srv/man/main/foo/foo.1.html.gz'']
       [0, 0, 29, 0, 1, 0, 0, 0]"

text \<open>The same pass when the \<^verbatim>\<open>select\<close> takes \<^verbatim>\<open>ctx.Done()\<close> for \<^verbatim>\<open>foo.2\<close>
  after the failure, at its end.\<close>

definition exDropped :: "(string, string) config" where
  "exDropped =
     exConfig [(''foo'', exTwoFiles)] [] [''/srv/man/main/foo/foo.1.html.gz'']
       [0, 0, 29, 29, 0, 0, 0]"

text \<open>The stale package when its directory cannot be listed.\<close>

definition exDeniedWorld :: "(string, string) world" where
  "exDeniedWorld = exWorld [(''foo'', exStaleFiles)] [] [''/srv/man/main/foo'']"

section \<open>A small file system to write into\<close>

text \<open>The index page of a package as an earlier pass left it, beside a temporary file
  an interrupted call left behind.\<close>

definition exOldIndex :: osFile where
  "exOldIndex = \<lparr> content = ''gz:<html>old index</html>'', mtime = 300, perm = 0x1A4 \<rparr>"

definition exFs :: fileSystem where
  "exFs =
     [''/srv/man/main/foo/index.html.gz'' \<mapsto> exOldIndex,
      ''/srv/man/main/foo/debiman-123456789'' \<mapsto>
        \<lparr> content = ''gz:<ht'', mtime = 250, perm = 0x180 \<rparr>]"

definition exOs :: "string os" where
  "exOs =
     \<lparr> randomNames = [''123456789'', ''987654321''], openErr = None,
       existErr = ''file exists'', gzipCloseErr = None, flushErr = None, chmodErr = None,
       closeErr = None, renameErr = None, now = 400, gzip = (\<lambda>p. ''gz:'' @ p), spilled = 5 \<rparr>"

definition exProducer :: "string producer" where
  "exProducer sink = (None, sink @ ''<html>new index</html>'')"

definition exFailingProducer :: "string producer" where
  "exFailingProducer sink = (Some ''template: executing pkgindex: broken pipe'', sink @ ''<html>new'')"

chapter \<open>Properties\<close>

section \<open>The steps of a pass, case by case\<close>

lemma producerSteps_cases:
  assumes "c' \<in> set (producerSteps W gv c)"
  obtains
    (pick) i dir files where "cur c = []" "i < length (todo c)" "todo c ! i = (dir, files)"
      "c' = c\<lparr> todo := removeAt i (todo c),
                cur := (if skippedDir W dir then [] else dirBody W gv dir files) \<rparr>"
  | (close) "cur c = []" "todo c = []" "c' = c\<lparr> pc := Waiting, trace := trace c @ [ClosedChan] \<rparr>"
  | (warn) p err rest where "cur c = Warn p err # rest"
      "c' = c\<lparr> cur := rest, trace := trace c @ [Warned p err] \<rparr>"
  | (sent) j rest w where "cur c = Offer j # rest" "w < length (workers c)" "workers c ! w = Idle"
      "c' = c\<lparr> cur := rest, workers := (workers c)[w := Busy j], trace := trace c @ [Sent w j] \<rparr>"
  | (skipped) j rest err where "cur c = Offer j # rest" "ctxErr c = Some err"
      "c' = c\<lparr> cur := rest, trace := trace c @ [Skipped j] \<rparr>"
  | (pkgindex_ok) d m rest where "cur c = Pkgindex d m # rest" "renderPkgindex W d m = None"
      "c' = c\<lparr> cur := rest, trace := trace c @ [RenderedPkgindex d m None] \<rparr>"
  | (pkgindex_err) d m rest err where "cur c = Pkgindex d m # rest" "renderPkgindex W d m = Some err"
      "c' = c\<lparr> pc := Returned (Some err), trace := trace c @ [RenderedPkgindex d m (Some err)] \<rparr>"
proof (cases "cur c")
  case Nil
  show ?thesis
  proof (cases "todo c = []")
    case True
    with Nil assms have "c' = c\<lparr> pc := Waiting, trace := trace c @ [ClosedChan] \<rparr>"
      by (simp add: producerSteps_def)
    with Nil True show ?thesis by (rule close)
  next
    case False
    with Nil assms obtain i where i: "i < length (todo c)" "c' = pickDir W gv c i"
      by (auto simp add: producerSteps_def)
    obtain dir files where df: "todo c ! i = (dir, files)" by (cases "todo c ! i")
    with i have "c' = c\<lparr> todo := removeAt i (todo c),
                cur := (if skippedDir W dir then [] else dirBody W gv dir files) \<rparr>"
      by (simp add: pickDir_def)
    with Nil i(1) df show ?thesis by (rule pick)
  qed
next
  case (Cons a rest)
  show ?thesis
  proof (cases a)
    case (Warn p err)
    with Cons assms have "c' = c\<lparr> cur := rest, trace := trace c @ [Warned p err] \<rparr>"
      by (simp add: producerSteps_def)
    with Cons Warn show ?thesis by (auto intro: warn)
  next
    case (Offer j)
    with Cons assms have "c' \<in> set (offerSteps c j rest)"
      by (simp add: producerSteps_def)
    then consider
        (a) w where "w < length (workers c)" "c' \<in> set (sendTo c j rest w)"
      | (b) err where "ctxErr c = Some err" "c' = c\<lparr> cur := rest, trace := trace c @ [Skipped j] \<rparr>"
      by (cases "ctxErr c") (auto simp add: offerSteps_def)
    then show ?thesis
    proof cases
      case a
      then have "workers c ! w = Idle"
        and "c' = c\<lparr> cur := rest, workers := (workers c)[w := Busy j], trace := trace c @ [Sent w j] \<rparr>"
        by (auto simp add: sendTo_def split: wstate.splits)
      with Cons Offer a(1) show ?thesis by (auto intro: sent)
    next
      case b
      with Cons Offer show ?thesis by (auto intro: skipped)
    qed
  next
    case (Pkgindex d m)
    with Cons assms have c': "c' = pkgindexStep W c d m rest"
      by (simp add: producerSteps_def)
    show ?thesis
    proof (cases "renderPkgindex W d m")
      case None
      with c' have "c' = c\<lparr> cur := rest, trace := trace c @ [RenderedPkgindex d m None] \<rparr>"
        by (simp add: pkgindexStep_def)
      with Cons Pkgindex None show ?thesis by (auto intro: pkgindex_ok)
    next
      case (Some err)
      with c' have "c' = c\<lparr> pc := Returned (Some err), trace := trace c @ [RenderedPkgindex d m (Some err)] \<rparr>"
        by (simp add: pkgindexStep_def)
      with Cons Pkgindex Some show ?thesis by (auto intro: pkgindex_err)
    qed
  qed
qed

lemma workerSteps_cases:
  assumes "c' \<in> set (workerSteps W c)"
  obtains w j where "w < length (workers c)" "workers c ! w = Busy j"
    "c' = c\<lparr> workers := (workers c)[w := (case rendermanpage W j of None \<Rightarrow> Idle | Some _ \<Rightarrow> Exited)],
              ctxErr := (case ctxErr c of None \<Rightarrow> rendermanpage W j | Some first \<Rightarrow> Some first),
              trace := trace c @ [RenderedManpage w j (rendermanpage W j)] \<rparr>"
proof -
  from assms obtain w where w: "w < length (workers c)" "c' \<in> set (finish W c w)"
    by (auto simp add: workerSteps_def)
  then obtain j where "workers c ! w = Busy j"
    by (cases "workers c ! w") (simp_all add: finish_def)
  with w show ?thesis
    by (intro that[of w j]) (simp_all add: finish_def Let_def)
qed

lemma waitSteps_cases:
  assumes "c' \<in> set (waitSteps c)"
  obtains
    (waited_ok) "\<not> list_ex isBusy (workers c)" "ctxErr c = None"
      "c' = c\<lparr> pc := Listing (binsBySuite c), trace := trace c @ [Waited None] \<rparr>"
  | (waited_err) err where "\<not> list_ex isBusy (workers c)" "ctxErr c = Some err"
      "c' = c\<lparr> pc := Returned (Some err), trace := trace c @ [Waited (Some err)] \<rparr>"
  using assms by (auto simp add: waitSteps_def split: if_splits option.splits)

lemma listingSteps_cases:
  assumes "c' \<in> set (listingSteps W c ss)"
  obtains
    (contents_ok) i suite bins where "i < length ss" "ss ! i = (suite, bins)"
      "renderContents W (contentsPath W suite) suite bins = None"
      "c' = c\<lparr> pc := Listing (removeAt i ss),
                trace := trace c @ [RenderedContents (contentsPath W suite) suite bins None] \<rparr>"
  | (contents_err) i suite bins err where "i < length ss" "ss ! i = (suite, bins)"
      "renderContents W (contentsPath W suite) suite bins = Some err"
      "c' = c\<lparr> pc := Returned (Some err),
                trace := trace c @ [RenderedContents (contentsPath W suite) suite bins (Some err)] \<rparr>"
  | (return) "ss = []" "c' = c\<lparr> pc := Returned None \<rparr>"
proof (cases "ss = []")
  case True
  with assms show ?thesis by (auto simp add: listingSteps_def intro: return)
next
  case False
  with assms obtain i where i: "i < length ss" "c' = contentsStep W c ss i"
    by (auto simp add: listingSteps_def)
  obtain suite bins where sb: "ss ! i = (suite, bins)" by (cases "ss ! i")
  show ?thesis
  proof (cases "renderContents W (contentsPath W suite) suite bins")
    case None
    with i sb show ?thesis by (intro contents_ok[of i suite bins]) (simp_all add: contentsStep_def)
  next
    case (Some err)
    with i sb show ?thesis by (intro contents_err[of i suite bins err]) (simp_all add: contentsStep_def)
  qed
qed

lemma renderAllSteps_cases [consumes 1, case_names pick close warn sent skipped pkgindex_ok
    pkgindex_err finished waited_ok waited_err contents_ok contents_err return]:
  assumes "c' \<in> set (renderAllSteps W gv c)"
  obtains
    (pick) i dir files where "pc c = Scanning" "cur c = []" "i < length (todo c)"
      "todo c ! i = (dir, files)"
      "c' = c\<lparr> todo := removeAt i (todo c),
                cur := (if skippedDir W dir then [] else dirBody W gv dir files) \<rparr>"
  | (close) "pc c = Scanning" "cur c = []" "todo c = []"
      "c' = c\<lparr> pc := Waiting, trace := trace c @ [ClosedChan] \<rparr>"
  | (warn) p err rest where "pc c = Scanning" "cur c = Warn p err # rest"
      "c' = c\<lparr> cur := rest, trace := trace c @ [Warned p err] \<rparr>"
  | (sent) j rest w where "pc c = Scanning" "cur c = Offer j # rest" "w < length (workers c)"
      "workers c ! w = Idle"
      "c' = c\<lparr> cur := rest, workers := (workers c)[w := Busy j], trace := trace c @ [Sent w j] \<rparr>"
  | (skipped) j rest err where "pc c = Scanning" "cur c = Offer j # rest" "ctxErr c = Some err"
      "c' = c\<lparr> cur := rest, trace := trace c @ [Skipped j] \<rparr>"
  | (pkgindex_ok) d m rest where "pc c = Scanning" "cur c = Pkgindex d m # rest"
      "renderPkgindex W d m = None"
      "c' = c\<lparr> cur := rest, trace := trace c @ [RenderedPkgindex d m None] \<rparr>"
  | (pkgindex_err) d m rest err where "pc c = Scanning" "cur c = Pkgindex d m # rest"
      "renderPkgindex W d m = Some err"
      "c' = c\<lparr> pc := Returned (Some err), trace := trace c @ [RenderedPkgindex d m (Some err)] \<rparr>"
  | (finished) w j where "pc c = Scanning \<or> pc c = Waiting" "w < length (workers c)"
      "workers c ! w = Busy j"
      "c' = c\<lparr> workers := (workers c)[w := (case rendermanpage W j of None \<Rightarrow> Idle | Some _ \<Rightarrow> Exited)],
                ctxErr := (case ctxErr c of None \<Rightarrow> rendermanpage W j | Some first \<Rightarrow> Some first),
                trace := trace c @ [RenderedManpage w j (rendermanpage W j)] \<rparr>"
  | (waited_ok) "pc c = Waiting" "\<not> list_ex isBusy (workers c)" "ctxErr c = None"
      "c' = c\<lparr> pc := Listing (binsBySuite c), trace := trace c @ [Waited None] \<rparr>"
  | (waited_err) err where "pc c = Waiting" "\<not> list_ex isBusy (workers c)" "ctxErr c = Some err"
      "c' = c\<lparr> pc := Returned (Some err), trace := trace c @ [Waited (Some err)] \<rparr>"
  | (contents_ok) ss i suite bins where "pc c = Listing ss" "i < length ss" "ss ! i = (suite, bins)"
      "renderContents W (contentsPath W suite) suite bins = None"
      "c' = c\<lparr> pc := Listing (removeAt i ss),
                trace := trace c @ [RenderedContents (contentsPath W suite) suite bins None] \<rparr>"
  | (contents_err) ss i suite bins err where "pc c = Listing ss" "i < length ss" "ss ! i = (suite, bins)"
      "renderContents W (contentsPath W suite) suite bins = Some err"
      "c' = c\<lparr> pc := Returned (Some err),
                trace := trace c @ [RenderedContents (contentsPath W suite) suite bins (Some err)] \<rparr>"
  | (return) "pc c = Listing []" "c' = c\<lparr> pc := Returned None \<rparr>"
proof (cases "pc c")
  case Scanning
  with assms consider "c' \<in> set (producerSteps W gv c)" | "c' \<in> set (workerSteps W c)"
    by (auto simp add: renderAllSteps_def)
  then show ?thesis
  proof cases
    case 1
    then show ?thesis
      using Scanning pick close warn sent skipped pkgindex_ok pkgindex_err
      by (cases rule: producerSteps_cases) blast+
  next
    case 2
    then show ?thesis using Scanning finished by (cases rule: workerSteps_cases) blast
  qed
next
  case Waiting
  with assms consider "c' \<in> set (waitSteps c)" | "c' \<in> set (workerSteps W c)"
    by (auto simp add: renderAllSteps_def)
  then show ?thesis
  proof cases
    case 1
    then show ?thesis using Waiting waited_ok waited_err by (cases rule: waitSteps_cases) blast+
  next
    case 2
    then show ?thesis using Waiting finished by (cases rule: workerSteps_cases) blast
  qed
next
  case (Listing ss)
  with assms have "c' \<in> set (listingSteps W c ss)"
    by (simp add: renderAllSteps_def)
  then show ?thesis
    using Listing contents_ok contents_err return by (cases rule: listingSteps_cases) blast+
next
  case (Returned r)
  with assms show ?thesis by (simp add: renderAllSteps_def)
qed

lemma runSchedule_runs:
  "runs W gv c \<Longrightarrow> runSchedule W gv sched c = Some c' \<Longrightarrow> runs W gv c'"
proof (induction sched arbitrary: c)
  case Nil
  then show ?case by simp
next
  case (Cons i sched)
  from Cons.prems(2) have i: "i < length (renderAllSteps W gv c)"
    and r: "runSchedule W gv sched (renderAllSteps W gv c ! i) = Some c'"
    by (simp_all split: if_splits)
  from i have "renderAllSteps W gv c ! i \<in> set (renderAllSteps W gv c)" by simp
  with Cons.prems(1) have "runs W gv (renderAllSteps W gv c ! i)" by (rule runs.step)
  then show ?case using r by (rule Cons.IH)
qed

lemma precedes_snoc:
  "precedes P Q (xs @ [x]) = (precedes P Q xs \<and> (\<not> P x \<or> \<not> list_ex Q xs))"
  by (induction xs) auto

section \<open>What a trace looks like in each phase\<close>

lemma event_simps:
  "isSkipped (Warned p e) = False"
  "isSkipped (Sent w j) = False"
  "isSkipped (Skipped j) = True"
  "isSkipped (RenderedManpage w j r) = False"
  "isSkipped (RenderedPkgindex d m r) = False"
  "isSkipped ClosedChan = False"
  "isSkipped (Waited r) = False"
  "isSkipped (RenderedContents d s b r) = False"
  "isSent (Warned p e) = False"
  "isSent (Sent w j) = True"
  "isSent (Skipped j) = False"
  "isSent (RenderedManpage w j r) = False"
  "isSent (RenderedPkgindex d m r) = False"
  "isSent ClosedChan = False"
  "isSent (Waited r) = False"
  "isSent (RenderedContents d s b r) = False"
  "isSentTo v (Warned p e) = False"
  "isSentTo v (Sent w j) = (w = v)"
  "isSentTo v (Skipped j) = False"
  "isSentTo v (RenderedManpage w j r) = False"
  "isSentTo v (RenderedPkgindex d m r) = False"
  "isSentTo v ClosedChan = False"
  "isSentTo v (Waited r) = False"
  "isSentTo v (RenderedContents d s b r) = False"
  "isRenderedManpage (Warned p e) = False"
  "isRenderedManpage (Sent w j) = False"
  "isRenderedManpage (Skipped j) = False"
  "isRenderedManpage (RenderedManpage w j r) = True"
  "isRenderedManpage (RenderedPkgindex d m r) = False"
  "isRenderedManpage ClosedChan = False"
  "isRenderedManpage (Waited r) = False"
  "isRenderedManpage (RenderedContents d s b r) = False"
  "isFailureOf v (Warned p e) = False"
  "isFailureOf v (Sent w j) = False"
  "isFailureOf v (Skipped j) = False"
  "isFailureOf v (RenderedManpage w j r) = (w = v \<and> r \<noteq> None)"
  "isFailureOf v (RenderedPkgindex d m r) = False"
  "isFailureOf v ClosedChan = False"
  "isFailureOf v (Waited r) = False"
  "isFailureOf v (RenderedContents d s b r) = False"
  "isRenderedPkgindex (Warned p e) = False"
  "isRenderedPkgindex (Sent w j) = False"
  "isRenderedPkgindex (Skipped j) = False"
  "isRenderedPkgindex (RenderedManpage w j r) = False"
  "isRenderedPkgindex (RenderedPkgindex d m r) = True"
  "isRenderedPkgindex ClosedChan = False"
  "isRenderedPkgindex (Waited r) = False"
  "isRenderedPkgindex (RenderedContents d s b r) = False"
  "isClosedChan (Warned p e) = False"
  "isClosedChan (Sent w j) = False"
  "isClosedChan (Skipped j) = False"
  "isClosedChan (RenderedManpage w j r) = False"
  "isClosedChan (RenderedPkgindex d m r) = False"
  "isClosedChan ClosedChan = True"
  "isClosedChan (Waited r) = False"
  "isClosedChan (RenderedContents d s b r) = False"
  "isWaited (Warned p e) = False"
  "isWaited (Sent w j) = False"
  "isWaited (Skipped j) = False"
  "isWaited (RenderedManpage w j r) = False"
  "isWaited (RenderedPkgindex d m r) = False"
  "isWaited ClosedChan = False"
  "isWaited (Waited r) = True"
  "isWaited (RenderedContents d s b r) = False"
  "isRenderedContents (Warned p e) = False"
  "isRenderedContents (Sent w j) = False"
  "isRenderedContents (Skipped j) = False"
  "isRenderedContents (RenderedManpage w j r) = False"
  "isRenderedContents (RenderedPkgindex d m r) = False"
  "isRenderedContents ClosedChan = False"
  "isRenderedContents (Waited r) = False"
  "isRenderedContents (RenderedContents d s b r) = True"
  "isFailedRender (Warned p e) = False"
  "isFailedRender (Sent w j) = False"
  "isFailedRender (Skipped j) = False"
  "isFailedRender (RenderedManpage w j r) = (r \<noteq> None)"
  "isFailedRender (RenderedPkgindex d m r) = (r \<noteq> None)"
  "isFailedRender ClosedChan = False"
  "isFailedRender (Waited r) = False"
  "isFailedRender (RenderedContents d s b r) = False"
  "truthful W (Warned p e) = True"
  "truthful W (Sent w j) = True"
  "truthful W (Skipped j) = True"
  "truthful W (RenderedManpage w j r) = (r = rendermanpage W j)"
  "truthful W (RenderedPkgindex d m r) = (r = renderPkgindex W d m)"
  "truthful W ClosedChan = True"
  "truthful W (Waited r) = True"
  "truthful W (RenderedContents d s b r) = (r = renderContents W d s b)"
  by (simp_all add: isSkipped_def isSent_def isSentTo_def isRenderedManpage_def isFailureOf_def
      isRenderedPkgindex_def isClosedChan_def isWaited_def isRenderedContents_def
      isFailedRender_def truthful_def split: option.splits)

lemma start_cases:
  obtains (failed) err where "gatherContents W gv = Inl err"
      "renderAllStart W gv = \<lparr> todo = [], cur = [], workers = [], ctxErr = None, binsBySuite = [],
            pc = Returned (Some err), trace = [] \<rparr>"
  | (ok) contents bins where "gatherContents W gv = Inr (contents, bins)"
      "renderAllStart W gv = \<lparr> todo = contents, cur = [], workers = replicate 30 Idle, ctxErr = None,
            binsBySuite = bins, pc = Scanning, trace = [] \<rparr>"
  by (cases "gatherContents W gv") (auto simp add: renderAllStart_def)

lemma scan_wait_inv:
  assumes "runs W gv c" and "pc c = Scanning \<or> pc c = Waiting"
  shows "\<not> list_ex isWaited (trace c) \<and> \<not> list_ex isRenderedContents (trace c) \<and>
         (list_ex isFailedRender (trace c) \<longrightarrow> ctxErr c \<noteq> None)"
  using assms
proof (induction rule: runs.induct)
  case start
  show ?case by (cases rule: start_cases[of W gv]) simp_all
next
  case (step c c')
  from step.hyps(2) step.prems step.IH show ?case
  proof (cases rule: renderAllSteps_cases)
    case (finished w j)
    with step.IH show ?thesis
      by (cases "rendermanpage W j"; cases "ctxErr c") (simp_all add: event_simps)
  qed (simp_all add: event_simps)
qed

lemma scanning_not_closed:
  assumes "runs W gv c" and "pc c = Scanning"
  shows "\<not> list_ex isClosedChan (trace c)"
  using assms
proof (induction rule: runs.induct)
  case start
  show ?case by (cases rule: start_cases[of W gv]) simp_all
next
  case (step c c')
  from step.hyps(2) step.prems step.IH show ?case
    by (cases rule: renderAllSteps_cases) (simp_all add: event_simps)
qed

lemma waiting_scan_done:
  assumes "runs W gv c" and "pc c = Waiting"
  shows "todo c = [] \<and> cur c = []"
  using assms
proof (induction rule: runs.induct)
  case start
  show ?case using start by (cases rule: start_cases[of W gv]) simp_all
next
  case (step c c')
  from step.hyps(2) step.prems step.IH show ?case
    by (cases rule: renderAllSteps_cases) simp_all
qed

lemma listing_inv:
  assumes "runs W gv c" and "pc c = Listing ss"
  shows "Waited None \<in> set (trace c) \<and> ctxErr c = None \<and> \<not> list_ex isBusy (workers c) \<and>
         todo c = [] \<and> cur c = [] \<and> \<not> list_ex isFailedRender (trace c)"
  using assms
proof (induction arbitrary: ss rule: runs.induct)
  case start
  show ?case using start by (cases rule: start_cases[of W gv]) simp_all
next
  case (step c c')
  from step.hyps(2) show ?case
  proof (cases rule: renderAllSteps_cases)
    case waited_ok
    with scan_wait_inv[OF step.hyps(1)] waiting_scan_done[OF step.hyps(1)]
    show ?thesis by (simp add: event_simps)
  next
    case (contents_ok ss' i suite bins)
    with step.IH[of ss'] show ?thesis by (simp add: event_simps)
  qed (use step.prems in simp_all)
qed

lemma returned_inv:
  assumes "runs W gv c" and "pc c = Returned r"
    and "r = None \<or> list_ex isRenderedContents (trace c)"
  shows "Waited None \<in> set (trace c) \<and> ctxErr c = None \<and> \<not> list_ex isBusy (workers c) \<and>
         todo c = [] \<and> cur c = [] \<and> \<not> list_ex isFailedRender (trace c)"
proof -
  from assms(1) show ?thesis
  proof (cases rule: runs.cases)
    case start
    with assms(2,3) show ?thesis by (cases rule: start_cases[of W gv]) simp_all
  next
    case (step c0)
    from step(2) show ?thesis
    proof (cases rule: renderAllSteps_cases)
      case (pkgindex_err d m rest err)
      with scan_wait_inv[OF step(1)] assms(2,3) show ?thesis by (simp add: event_simps)
    next
      case (waited_err err)
      with scan_wait_inv[OF step(1)] assms(2,3) show ?thesis by (simp add: event_simps)
    next
      case (contents_err ss' i suite bins err)
      with listing_inv[OF step(1), of ss'] show ?thesis by (simp add: event_simps)
    next
      case return
      with listing_inv[OF step(1), of "[]"] show ?thesis by simp
    qed (use assms(2) in simp_all)
  qed
qed

lemma settled_inv:
  assumes "runs W gv c"
    and "(\<exists>ss. pc c = Listing ss) \<or> pc c = Returned None \<or> list_ex isRenderedContents (trace c)"
  shows "Waited None \<in> set (trace c) \<and> ctxErr c = None \<and> \<not> list_ex isBusy (workers c) \<and>
         todo c = [] \<and> cur c = [] \<and> \<not> list_ex isFailedRender (trace c)"
proof (cases "pc c")
  case Scanning
  with assms(2) scan_wait_inv[OF assms(1)] show ?thesis by simp
next
  case Waiting
  with assms(2) scan_wait_inv[OF assms(1)] show ?thesis by simp
next
  case (Listing ss)
  with assms(1) show ?thesis by (rule listing_inv)
next
  case (Returned r)
  with assms show ?thesis by (intro returned_inv[of W gv c r]) auto
qed

lemma firstRenderError_snoc:
  "firstRenderError (tr @ [ev]) =
     (case firstRenderError tr of Some err \<Rightarrow> Some err | None \<Rightarrow> firstRenderError [ev])"
  by (induction tr rule: firstRenderError.induct) simp_all

lemma firstRenderError_single:
  "firstRenderError [Warned p e] = None"
  "firstRenderError [Sent w j] = None"
  "firstRenderError [Skipped j] = None"
  "firstRenderError [RenderedManpage w j r] = r"
  "firstRenderError [RenderedPkgindex d m r] = None"
  "firstRenderError [ClosedChan] = None"
  "firstRenderError [Waited r] = None"
  "firstRenderError [RenderedContents d s b r] = None"
  by (cases r; simp)+

lemma firstRenderError_Some:
  "firstRenderError tr = Some err \<Longrightarrow> \<exists>w j. RenderedManpage w j (Some err) \<in> set tr"
  by (induction tr rule: firstRenderError.induct) auto

lemma ctxErr_inv:
  assumes "runs W gv c"
  shows "ctxErr c = firstRenderError (trace c)"
  using assms
proof (induction rule: runs.induct)
  case start
  show ?case by (cases rule: start_cases[of W gv]) simp_all
next
  case (step c c')
  from step.hyps(2) step.IH show ?case
    by (cases rule: renderAllSteps_cases)
      (simp_all add: firstRenderError_snoc firstRenderError_single split: option.splits)
qed

lemma truthful_inv:
  assumes "runs W gv c"
  shows "list_all (truthful W) (trace c)"
  using assms
proof (induction rule: runs.induct)
  case start
  show ?case by (cases rule: start_cases[of W gv]) simp_all
next
  case (step c c')
  from step.hyps(2) step.IH show ?case
    by (cases rule: renderAllSteps_cases) (simp_all add: event_simps)
qed

lemma pkgindex_order_inv:
  assumes "runs W gv c"
  shows "precedes isRenderedPkgindex isClosedChan (trace c) \<and>
         precedes isRenderedPkgindex isWaited (trace c)"
  using assms
proof (induction rule: runs.induct)
  case start
  show ?case by (cases rule: start_cases[of W gv]) simp_all
next
  case (step c c')
  note sw = scan_wait_inv[OF step.hyps(1)] and sc = scanning_not_closed[OF step.hyps(1)]
  from step.hyps(2) step.IH sw sc show ?case
    by (cases rule: renderAllSteps_cases) (simp_all add: event_simps precedes_snoc)
qed

lemma contents_last_inv:
  assumes "runs W gv c"
  shows "precedes (\<lambda>ev. \<not> isRenderedContents ev) isRenderedContents (trace c)"
  using assms
proof (induction rule: runs.induct)
  case start
  show ?case by (cases rule: start_cases[of W gv]) simp_all
next
  case (step c c')
  note sw = scan_wait_inv[OF step.hyps(1)]
  from step.hyps(2) step.IH sw show ?case
    by (cases rule: renderAllSteps_cases) (simp_all add: event_simps precedes_snoc)
qed

lemma sent_inv:
  assumes "runs W gv c" and "Sent w j \<in> set (trace c)"
  shows "(w < length (workers c) \<and> workers c ! w = Busy j) \<or>
         (\<exists>r. RenderedManpage w j r \<in> set (trace c))"
  using assms
proof (induction rule: runs.induct)
  case start
  show ?case using start by (cases rule: start_cases[of W gv]) simp_all
next
  case (step c c')
  from step.hyps(2) show ?case
  proof (cases rule: renderAllSteps_cases)
    case (sent j' rest w')
    show ?thesis
    proof (cases "Sent w j \<in> set (trace c)")
      case True
      with step.IH sent show ?thesis by (cases "w = w'") auto
    next
      case False
      with step.prems sent show ?thesis by simp
    qed
  next
    case (finished w' j')
    with step.prems step.IH show ?thesis by (cases "w = w'") auto
  qed (use step.prems step.IH in auto)
qed

lemma failed_worker_inv:
  assumes "runs W gv c"
  shows "(list_ex (isFailureOf w) (trace c) \<longrightarrow> w < length (workers c) \<and> workers c ! w = Exited) \<and>
         precedes (isSentTo w) (isFailureOf w) (trace c)"
  using assms
proof (induction rule: runs.induct)
  case start
  show ?case by (cases rule: start_cases[of W gv]) simp_all
next
  case (step c c')
  from step.hyps(2) show ?case
  proof (cases rule: renderAllSteps_cases)
    case (sent j' rest w')
    with step.IH show ?thesis
      by (cases "w = w'") (auto simp add: event_simps precedes_snoc)
  next
    case (finished w' j')
    with step.IH show ?thesis
      by (cases "w = w'"; cases "rendermanpage W j'") (auto simp add: event_simps precedes_snoc)
  qed (use step.IH in \<open>simp_all add: event_simps precedes_snoc\<close>)
qed

lemma returned_result:
  assumes "runs W gv c" and "pc c = Returned r"
  shows "r = None \<or>
    (\<exists>err. r = Some err \<and> trace c = [] \<and> gatherContents W gv = Inl err) \<or>
    (\<exists>err d m. r = Some err \<and> renderPkgindex W d m = Some err \<and>
        RenderedPkgindex d m (Some err) \<in> set (trace c)) \<or>
    (\<exists>err. r = Some err \<and> firstRenderError (trace c) = Some err \<and>
        \<not> list_ex isRenderedContents (trace c)) \<or>
    (\<exists>err d s b. r = Some err \<and> renderContents W d s b = Some err \<and>
        RenderedContents d s b (Some err) \<in> set (trace c))"
proof -
  from assms(1) show ?thesis
  proof (cases rule: runs.cases)
    case start
    with assms(2) show ?thesis by (cases rule: start_cases[of W gv]) simp_all
  next
    case (step c0)
    from step(2) show ?thesis
    proof (cases rule: renderAllSteps_cases)
      case (pkgindex_err d m rest err)
      have "r = Some err" using assms(2) pkgindex_err(4) by simp
      moreover have "RenderedPkgindex d m (Some err) \<in> set (trace c)"
        using pkgindex_err(4) by simp
      ultimately show ?thesis using pkgindex_err(3) by blast
    next
      case (waited_err err)
      have e: "firstRenderError (trace c0) = Some err"
        using ctxErr_inv[OF step(1)] waited_err(3) by simp
      have "firstRenderError (trace c) = Some err"
        using waited_err(4) e by (simp add: firstRenderError_snoc)
      moreover have "\<not> list_ex isRenderedContents (trace c)"
        using scan_wait_inv[OF step(1)] waited_err(1,4) by (simp add: event_simps)
      moreover have "r = Some err" using assms(2) waited_err(4) by simp
      ultimately show ?thesis by blast
    next
      case (contents_err ss' i suite bins err)
      have "r = Some err" using assms(2) contents_err(5) by simp
      moreover have "RenderedContents (contentsPath W suite) suite bins (Some err) \<in> set (trace c)"
        using contents_err(5) by simp
      ultimately show ?thesis using contents_err(4) by blast
    next
      case return
      with assms(2) show ?thesis by simp
    qed (use assms(2) in simp_all)
  qed
qed

lemma set_removeAt:
  "i < length xs \<Longrightarrow> set xs = insert (xs ! i) (set (removeAt i xs))"
proof -
  assume "i < length xs"
  then have "xs = take i xs @ xs ! i # drop (Suc i) xs" by (rule id_take_nth_drop)
  then have "set xs = set (take i xs @ xs ! i # drop (Suc i) xs)" by simp
  then show ?thesis by (simp add: removeAt_def)
qed

lemma binsBySuite_inv:
  assumes "runs W gv c" and "gatherContents W gv = Inr (contents, bins)"
  shows "binsBySuite c = bins"
  using assms
proof (induction rule: runs.induct)
  case start
  show ?case using start by (cases rule: start_cases[of W gv]) simp_all
next
  case (step c c')
  from step.hyps(2) step.IH step.prems show ?case
    by (cases rule: renderAllSteps_cases) simp_all
qed

lemma listing_cover_inv:
  assumes "runs W gv c" and "pc c = Listing ss" and "(s, b) \<in> set (binsBySuite c)"
  shows "(s, b) \<in> set ss \<or> RenderedContents (contentsPath W s) s b None \<in> set (trace c)"
  using assms
proof (induction arbitrary: ss rule: runs.induct)
  case start
  show ?case using start by (cases rule: start_cases[of W gv]) simp_all
next
  case (step c c')
  from step.hyps(2) show ?case
  proof (cases rule: renderAllSteps_cases)
    case waited_ok
    with step.prems show ?thesis by simp
  next
    case (contents_ok ss' i suite bins)
    from contents_ok(2) have "set ss' = insert (ss' ! i) (set (removeAt i ss'))"
      by (rule set_removeAt)
    with contents_ok step.prems step.IH[of ss'] show ?thesis by auto
  qed (use step.prems in simp_all)
qed

lemma returned_cover:
  assumes "runs W gv c" and "pc c = Returned None" and "(s, b) \<in> set (binsBySuite c)"
  shows "RenderedContents (contentsPath W s) s b None \<in> set (trace c)"
proof -
  from assms(1) show ?thesis
  proof (cases rule: runs.cases)
    case start
    with assms(2) show ?thesis by (cases rule: start_cases[of W gv]) simp_all
  next
    case (step c0)
    from step(2) show ?thesis
    proof (cases rule: renderAllSteps_cases)
      case return
      with listing_cover_inv[OF step(1), of "[]" s b] assms(3) show ?thesis by simp
    qed (use assms(2) in simp_all)
  qed
qed

lemma failed_manpage_in_trace:
  "RenderedManpage w j (Some err) \<in> set tr \<Longrightarrow> list_ex isFailedRender tr"
  unfolding list_ex_iff by (rule bexI[of _ "RenderedManpage w j (Some err)"]) (simp_all add: event_simps)

lemma contents_in_trace:
  "RenderedContents d s b r \<in> set tr \<Longrightarrow> list_ex isRenderedContents tr"
  unfolding list_ex_iff by (rule bexI[of _ "RenderedContents d s b r"]) (simp_all add: event_simps)

lemma truthful_manpage:
  assumes "runs W gv c" and "RenderedManpage w j r \<in> set (trace c)"
  shows "r = rendermanpage W j"
proof -
  from truthful_inv[OF assms(1)] assms(2) have "truthful W (RenderedManpage w j r)"
    by (simp add: list_all_iff)
  then show ?thesis by (simp add: event_simps)
qed

section \<open>The scan of one directory\<close>

lemma scanFiles_Nil: "scanFiles W gv dir fbn imt [] st = st"
  by (simp add: scanFiles_def)

lemma scanFiles_Cons:
  "scanFiles W gv dir fbn imt (f # fs) st = scanFiles W gv dir fbn imt fs (scanFile W gv dir fbn imt f st)"
  by (simp add: scanFiles_def)

lemma scanFile_skip:
  "\<not> isSource dir f \<or> isSymlink f \<Longrightarrow> scanFile W gv dir fbn imt f st = st"
  by (auto simp add: scanFile_def)

lemma scanFile_unparsed:
  assumes "isSource dir f" and "\<not> isSymlink f" and "parsed W dir f = Inl err"
  shows "scanFile W gv dir fbn imt f st =
           st\<lparr> indexNeedsUpdate := indexNeedsUpdate st \<or> After (ModTime f) imt,
               body := body st @ [Warn (filepathJoin [dir, Name f]) err] \<rparr>"
  using assms by (simp add: scanFile_def parsed_def)

lemma scanFile_parsed:
  assumes "isSource dir f" and "\<not> isSymlink f" and "parsed W dir f = Inr m"
  shows "scanFile W gv dir fbn imt f st =
           st\<lparr> indexNeedsUpdate := indexNeedsUpdate st \<or> After (ModTime f) imt,
               manpageByName := AList.update (Name f) m (manpageByName st),
               body := body st @ (if needsRender fbn f then [Offer (jobFor W gv dir f m)] else []) \<rparr>"
  using assms by (simp add: scanFile_def parsed_def Let_def)

lemma scanFile_cases [case_names skip unparsed parsed]:
  obtains (skip) "\<not> isSource dir f \<or> isSymlink f"
  | (unparsed) err where "isSource dir f" "\<not> isSymlink f" "parsed W dir f = Inl err"
  | (parsed) m where "isSource dir f" "\<not> isSymlink f" "parsed W dir f = Inr m"
  by (cases "parsed W dir f") auto

lemma offered_append: "offered (as @ bs) = offered as @ offered bs"
  by (induction as rule: offered.induct) simp_all

lemma offered_scanFile:
  "offered (body (scanFile W gv dir fbn imt f st)) =
     offered (body st) @
     (if isSource dir f \<and> \<not> isSymlink f \<and> needsRender fbn f
      then (case parsed W dir f of Inl _ \<Rightarrow> [] | Inr m \<Rightarrow> [jobFor W gv dir f m]) else [])"
  by (cases rule: scanFile_cases[where W=W and dir=dir and f=f])
    (auto simp add: scanFile_skip scanFile_unparsed scanFile_parsed offered_append)

lemma offered_scanFiles:
  "offered (body (scanFiles W gv dir fbn imt files st)) =
     offered (body st) @
     concat (map (\<lambda>f. if isSource dir f \<and> \<not> isSymlink f \<and> needsRender fbn f
                      then (case parsed W dir f of Inl _ \<Rightarrow> [] | Inr m \<Rightarrow> [jobFor W gv dir f m])
                      else []) files)"
  by (induction files arbitrary: st) (simp_all add: scanFiles_Nil scanFiles_Cons offered_scanFile)

lemma concat_map_filter_if:
  "concat (map (\<lambda>x. if P x then g x else []) xs) = concat (map g (filter P xs))"
  by (induction xs) simp_all

lemma indexNeedsUpdate_scanFile:
  "indexNeedsUpdate (scanFile W gv dir fbn imt f st) =
     (indexNeedsUpdate st \<or> (isSource dir f \<and> \<not> isSymlink f \<and> After (ModTime f) imt))"
  by (cases rule: scanFile_cases[where W=W and dir=dir and f=f])
    (auto simp add: scanFile_skip scanFile_unparsed scanFile_parsed)

lemma indexNeedsUpdate_scanFiles:
  "indexNeedsUpdate (scanFiles W gv dir fbn imt files st) =
     (indexNeedsUpdate st \<or> (\<exists>f \<in> set files. isSource dir f \<and> \<not> isSymlink f \<and> After (ModTime f) imt))"
  by (induction files arbitrary: st) (auto simp add: scanFiles_Nil scanFiles_Cons indexNeedsUpdate_scanFile)



lemma keys_scanFile:
  "fst ` set (manpageByName (scanFile W gv dir fbn imt f st)) =
     fst ` set (manpageByName st) \<union>
     {n. n = Name f \<and> isSource dir f \<and> \<not> isSymlink f \<and> (\<exists>m. parsed W dir f = Inr m)}"
  by (cases rule: scanFile_cases[where W=W and dir=dir and f=f])
    (auto simp add: scanFile_skip scanFile_unparsed scanFile_parsed dom_update)

lemma keys_scanFiles:
  "fst ` set (manpageByName (scanFiles W gv dir fbn imt files st)) =
     fst ` set (manpageByName st) \<union>
     {Name f | f. f \<in> set files \<and> isSource dir f \<and> \<not> isSymlink f \<and> (\<exists>m. parsed W dir f = Inr m)}"
  by (induction files arbitrary: st) (auto simp add: scanFiles_Nil scanFiles_Cons keys_scanFile)

lemma fold_upd_other:
  "n \<notin> Name ` set files \<Longrightarrow> fold (\<lambda>f m. m(Name f \<mapsto> f)) files m n = m n"
  by (induction files arbitrary: m) auto

lemma fold_upd_None:
  "(fold (\<lambda>f m. m(Name f \<mapsto> f)) files m n = None) = (m n = None \<and> n \<notin> Name ` set files)"
  by (induction files arbitrary: m) auto

lemma fold_upd_Some:
  "distinct (map Name files) \<Longrightarrow> h \<in> set files \<Longrightarrow>
     fold (\<lambda>f m. m(Name f \<mapsto> f)) files m (Name h) = Some h"
  by (induction files arbitrary: m) (auto simp add: fold_upd_other)

lemma fileByNameOf_None: "(fileByNameOf files n = None) = (n \<notin> Name ` set files)"
  by (simp add: fileByNameOf_def fold_upd_None)

lemma fileByNameOf_Some:
  "distinct (map Name files) \<Longrightarrow> h \<in> set files \<Longrightarrow> fileByNameOf files (Name h) = Some h"
  by (simp add: fileByNameOf_def fold_upd_Some)

lemma needsRender_snapshot:
  assumes "distinct (map Name files)"
  shows "needsRender (fileByNameOf files) f =
           (htmlName f \<notin> Name ` set files \<or>
            (\<exists>html \<in> set files. Name html = htmlName f \<and> Before (ModTime html) (ModTime f)))"
proof (cases "htmlName f \<in> Name ` set files")
  case False
  then have "fileByNameOf files (htmlName f) = None" by (simp add: fileByNameOf_None)
  with False show ?thesis by (simp add: needsRender_def)
next
  case True
  then obtain h where h: "h \<in> set files" "Name h = htmlName f" by auto
  from assms h(1) have "fileByNameOf files (Name h) = Some h" by (rule fileByNameOf_Some)
  with h(2) have eq: "fileByNameOf files (htmlName f) = Some h" by simp
  from assms have inj: "inj_on Name (set files)" by (simp add: distinct_map)
  have uniq: "g = h" if "g \<in> set files" "Name g = htmlName f" for g
    using inj that h by (simp add: inj_on_def)
  have "(\<exists>html \<in> set files. Name html = htmlName f \<and> Before (ModTime html) (ModTime f)) =
          Before (ModTime h) (ModTime f)"
    using h uniq by blast
  with True eq show ?thesis by (simp add: needsRender_def)
qed

lemma fresh_scanFile:
  assumes "freshFile W dir files f" and "list_all isWarn (body st)" and "\<not> indexNeedsUpdate st"
  shows "list_all isWarn (body (scanFile W gv dir (fileByNameOf files) (indexModTimeOf files) f st)) \<and>
         \<not> indexNeedsUpdate (scanFile W gv dir (fileByNameOf files) (indexModTimeOf files) f st)"
  using assms
  by (cases rule: scanFile_cases[where W=W and dir=dir and f=f])
    (auto simp add: scanFile_skip scanFile_unparsed scanFile_parsed freshFile_def isWarn_def parsed_def)

lemma fresh_scanFiles:
  assumes "list_all (freshFile W dir files) fs" and "list_all isWarn (body st)" and "\<not> indexNeedsUpdate st"
  shows "list_all isWarn (body (scanFiles W gv dir (fileByNameOf files) (indexModTimeOf files) fs st)) \<and>
         \<not> indexNeedsUpdate (scanFiles W gv dir (fileByNameOf files) (indexModTimeOf files) fs st)"
  using assms
proof (induction fs arbitrary: st)
  case Nil
  then show ?case by (simp add: scanFiles_Nil)
next
  case (Cons f fs)
  from Cons.prems have "freshFile W dir files f" and rest: "list_all (freshFile W dir files) fs" by simp_all
  with Cons.prems(2,3) have "list_all isWarn (body (scanFile W gv dir (fileByNameOf files) (indexModTimeOf files) f st)) \<and>
         \<not> indexNeedsUpdate (scanFile W gv dir (fileByNameOf files) (indexModTimeOf files) f st)"
    by (intro fresh_scanFile)
  with rest show ?case by (simp add: scanFiles_Cons Cons.IH)
qed

lemma fresh_dirBody:
  assumes "upToDate W (dir, files)"
  shows "list_all isWarn (dirBody W gv dir files)"
proof -
  from assms have "list_all (freshFile W dir files) files" by (simp add: upToDate_def)
  then have "list_all isWarn (body (scanDir W gv dir files)) \<and> \<not> indexNeedsUpdate (scanDir W gv dir files)"
    unfolding scanDir_def by (intro fresh_scanFiles) simp_all
  then show ?thesis by (simp add: dirBody_def Let_def)
qed

lemma offered_dirBody:
  "offered (dirBody W gv dir files) =
     concat (map (\<lambda>f. if isSource dir f \<and> \<not> isSymlink f \<and> needsRender (fileByNameOf files) f
                      then (case parsed W dir f of Inl _ \<Rightarrow> [] | Inr m \<Rightarrow> [jobFor W gv dir f m])
                      else []) files)"
  by (simp add: dirBody_def Let_def offered_append scanDir_def offered_scanFiles)

lemma keys_scanDir:
  "fst ` set (manpageByName (scanDir W gv dir files)) =
     {Name f | f. f \<in> set files \<and> isSource dir f \<and> \<not> isSymlink f \<and> (\<exists>m. parsed W dir f = Inr m)}"
  by (simp add: scanDir_def keys_scanFiles)

lemma distinct_Name_eq:
  "distinct (map Name files) \<Longrightarrow> f \<in> set files \<Longrightarrow> g \<in> set files \<Longrightarrow> Name f = Name g \<Longrightarrow> f = g"
  by (simp add: distinct_map inj_on_def)

section \<open>Passes over a tree that is up to date\<close>

lemma not_busy_nth: "\<not> list_ex isBusy ws \<Longrightarrow> w < length ws \<Longrightarrow> ws ! w \<noteq> Busy j"
proof
  assume a: "\<not> list_ex isBusy ws" "w < length ws" "ws ! w = Busy j"
  from a(2) have "ws ! w \<in> set ws" by simp
  moreover from a(3) have "isBusy (ws ! w)" by (simp add: isBusy_def)
  ultimately have "list_ex isBusy ws" unfolding list_ex_iff by (rule rev_bexI)
  with a(1) show False by simp
qed

lemma list_all_removeAt: "list_all P xs \<Longrightarrow> list_all P (removeAt i xs)"
  by (auto simp add: removeAt_def list_all_iff dest: in_set_takeD in_set_dropD)

lemma fresh_inv:
  assumes "freshTree W gv" and "runs W gv c"
  shows "list_all isWarn (cur c) \<and> list_all (upToDate W) (todo c) \<and>
         \<not> list_ex isBusy (workers c) \<and>
         \<not> list_ex isSent (trace c) \<and> \<not> list_ex isSkipped (trace c) \<and>
         \<not> list_ex isRenderedManpage (trace c) \<and> \<not> list_ex isRenderedPkgindex (trace c)"
  using assms(2)
proof (induction rule: runs.induct)
  case start
  show ?case
  proof (cases rule: start_cases[of W gv])
    case (failed err)
    with assms(1) show ?thesis by (simp add: freshTree_def)
  next
    case (ok contents bins)
    with assms(1) show ?thesis by (simp add: freshTree_def list_ex_iff isBusy_def)
  qed
next
  case (step c c')
  from step.hyps(2) show ?case
  proof (cases rule: renderAllSteps_cases)
    case (pick i dir files)
    from step.IH have "list_all (upToDate W) (todo c)" by simp
    with pick(3,4) have "upToDate W (dir, files)"
      by (metis list_all_length)
    then have "list_all isWarn (dirBody W gv dir files)" by (rule fresh_dirBody)
    with pick(5) step.IH show ?thesis by (simp add: list_all_removeAt)
  next
    case (finished w j)
    with step.IH not_busy_nth[of "workers c" w j] show ?thesis by simp
  qed (use step.IH in \<open>simp_all add: event_simps isWarn_def\<close>)
qed

section \<open>The jobs of a pass\<close>

lemma sentJobs_append: "sentJobs (xs @ ys) = sentJobs xs @ sentJobs ys"
  by (induction xs rule: sentJobs.induct) simp_all

lemma droppedJobs_append: "droppedJobs (xs @ ys) = droppedJobs xs @ droppedJobs ys"
  by (induction xs rule: droppedJobs.induct) simp_all

lemma mset_concat_removeAt:
  assumes "i < length xs"
  shows "mset (concat (map f xs)) = mset (f (xs ! i)) + mset (concat (map f (removeAt i xs)))"
proof -
  from assms have "xs = take i xs @ xs ! i # drop (Suc i) xs" by (rule id_take_nth_drop)
  then have "concat (map f xs) = concat (map f (take i xs @ xs ! i # drop (Suc i) xs))" by simp
  then show ?thesis by (simp add: removeAt_def)
qed

lemma jobs_inv:
  assumes "runs W gv c"
  shows "mset (sentJobs (trace c)) + mset (droppedJobs (trace c)) + mset (offered (cur c)) +
         mset (concat (map (dirJobs W gv) (todo c))) = mset (staleJobs W gv)"
  using assms
proof (induction rule: runs.induct)
  case start
  show ?case by (cases rule: start_cases[of W gv]) (simp_all add: staleJobs_def)
next
  case (step c c')
  from step(2) step(3) show ?case
  proof (cases rule: renderAllSteps_cases)
    case (pick i dir files)
    from pick(3,4) have "mset (concat (map (dirJobs W gv) (todo c))) =
        mset (offered (if skippedDir W dir then [] else dirBody W gv dir files)) +
        mset (concat (map (dirJobs W gv) (removeAt i (todo c))))"
      using mset_concat_removeAt[of i "todo c" "dirJobs W gv"] by (simp add: dirJobs_def bodyOf_def)
    with step.IH pick(2,5) show ?thesis by (cases "skippedDir W dir") (simp_all add: add.assoc)
  qed (simp_all add: sentJobs_append droppedJobs_append)
qed

lemma closed_inv:
  assumes "runs W gv c"
  shows "list_ex isClosedChan (trace c) \<longrightarrow> todo c = [] \<and> cur c = [] \<and> pc c \<noteq> Scanning"
  using assms
proof (induction rule: runs.induct)
  case start
  show ?case by (cases rule: start_cases[of W gv]) simp_all
next
  case (step c c')
  from step(2) step(3) show ?case
    by (cases rule: renderAllSteps_cases) (simp_all add: event_simps)
qed

lemma dropped_inv:
  assumes "runs W gv c"
  shows "droppedJobs (trace c) \<noteq> [] \<longrightarrow> ctxErr c \<noteq> None"
  using assms
proof (induction rule: runs.induct)
  case start
  show ?case by (cases rule: start_cases[of W gv]) simp_all
next
  case (step c c')
  from step(2) step(3) show ?case
    by (cases rule: renderAllSteps_cases) (simp_all add: droppedJobs_append split: option.splits)
qed


lemma sentJobs_set: "(j \<in> set (sentJobs tr)) = (\<exists>w. Sent w j \<in> set tr)"
  by (induction tr rule: sentJobs.induct) auto

lemma droppedJobs_set: "(j \<in> set (droppedJobs tr)) = (Skipped j \<in> set tr)"
  by (induction tr rule: droppedJobs.induct) auto

lemma jobs_bound:
  assumes "runs W gv c"
  shows "mset (sentJobs (trace c)) + mset (droppedJobs (trace c)) \<subseteq># mset (staleJobs W gv)"
proof -
  have "mset (sentJobs (trace c)) + mset (droppedJobs (trace c)) \<subseteq>#
        mset (sentJobs (trace c)) + mset (droppedJobs (trace c)) +
        (mset (offered (cur c)) + mset (concat (map (dirJobs W gv) (todo c))))"
    by (rule mset_subset_eq_add_left)
  with jobs_inv[OF assms] show ?thesis by (simp add: add.assoc)
qed

lemma jobs_closed:
  assumes "runs W gv c" and "list_ex isClosedChan (trace c)"
  shows "mset (sentJobs (trace c)) + mset (droppedJobs (trace c)) = mset (staleJobs W gv)"
proof -
  from closed_inv[OF assms(1)] assms(2) have "todo c = []" "cur c = []" by simp_all
  with jobs_inv[OF assms(1)] show ?thesis by simp
qed

lemma jobs_rendered:
  assumes "runs W gv c" and "pc c = Returned None" and "j \<in> set (staleJobs W gv)"
  shows "\<exists>w. Sent w j \<in> set (trace c) \<and> RenderedManpage w j None \<in> set (trace c)"
proof -
  from assms(1,2) have s: "Waited None \<in> set (trace c) \<and> ctxErr c = None \<and>
      \<not> list_ex isBusy (workers c) \<and> todo c = [] \<and> cur c = [] \<and>
      \<not> list_ex isFailedRender (trace c)"
    by (intro returned_inv[where r=None]) simp_all
  with dropped_inv[OF assms(1)] have d: "droppedJobs (trace c) = []" by auto
  from jobs_inv[OF assms(1)] s d have "mset (sentJobs (trace c)) = mset (staleJobs W gv)" by simp
  then have "set (sentJobs (trace c)) = set (staleJobs W gv)" by (rule mset_eq_setD)
  with assms(3) have "j \<in> set (sentJobs (trace c))" by simp
  then obtain w where sent: "Sent w j \<in> set (trace c)" unfolding sentJobs_set by blast
  from sent_inv[OF assms(1) sent] s not_busy_nth[of "workers c" w j]
  obtain r where r: "RenderedManpage w j r \<in> set (trace c)" by blast
  have "r = None"
  proof (cases r)
    case None
    then show ?thesis .
  next
    case (Some err)
    with r have "list_ex isFailedRender (trace c)" by (simp add: failed_manpage_in_trace)
    with s show ?thesis by simp
  qed
  with sent r show ?thesis by blast
qed

lemma workers_inv:
  assumes "runs W gv c"
  shows "(length (workers c) = 30 \<or> (\<exists>r. pc c = Returned r)) \<and>
         (ctxErr c = None \<longrightarrow> Exited \<notin> set (workers c))"
  using assms
proof (induction rule: runs.induct)
  case start
  show ?case by (cases rule: start_cases[of W gv]) simp_all
next
  case (step c c')
  from step(2) step(3) show ?case
  proof (cases rule: renderAllSteps_cases)
    case (sent j rest w)
    with step.IH show ?thesis by (auto dest!: set_update_subset_insert[THEN subsetD])
  next
    case (finished w j)
    with step.IH show ?thesis
      by (cases "rendermanpage W j"; cases "ctxErr c")
         (auto dest!: set_update_subset_insert[THEN subsetD])
  qed simp_all
qed

lemma in_set_not_Nil: "x \<in> set xs \<Longrightarrow> xs \<noteq> []"
  by auto

lemma sendTo_step:
  assumes "w < length (workers c)" and "workers c ! w = Idle"
  shows "c\<lparr> cur := rest, workers := (workers c)[w := Busy j], trace := trace c @ [Sent w j] \<rparr>
           \<in> set (concat (map (sendTo c j rest) [0..<length (workers c)]))"
  using assms by (auto simp add: sendTo_def intro!: bexI[of _ w])

lemma finish_step:
  assumes "w < length (workers c)" and "workers c ! w = Busy j"
  shows "workerSteps W c \<noteq> []"
proof -
  from assms have "finish W c w \<noteq> []" by (simp add: finish_def Let_def)
  with assms(1) show ?thesis by (auto simp add: workerSteps_def intro!: bexI[of _ w])
qed

lemma offer_steps:
  assumes "pc c = Scanning" and "cur c = Offer j # rest"
  shows "set (renderAllSteps W gv c) =
           {c\<lparr> cur := rest, workers := (workers c)[w := Busy j], trace := trace c @ [Sent w j] \<rparr> | w.
              w < length (workers c) \<and> workers c ! w = Idle} \<union>
           (case ctxErr c of
              None \<Rightarrow> {}
            | Some _ \<Rightarrow> {c\<lparr> cur := rest, trace := trace c @ [Skipped j] \<rparr>}) \<union>
           set (workerSteps W c)"
proof -
  have "set (concat (map (sendTo c j rest) [0..<length (workers c)])) =
          {c\<lparr> cur := rest, workers := (workers c)[w := Busy j], trace := trace c @ [Sent w j] \<rparr> | w.
              w < length (workers c) \<and> workers c ! w = Idle}"
    by (auto simp add: sendTo_def split: wstate.splits)
  with assms show ?thesis
    by (simp add: renderAllSteps_def producerSteps_def offerSteps_def split: option.splits)
qed

lemma no_deadlock:
  assumes "runs W gv c" and "\<forall>r. pc c \<noteq> Returned r"
  shows "renderAllSteps W gv c \<noteq> []"
proof (cases "pc c")
  case Scanning
  show ?thesis
  proof (cases "cur c")
    case Nil
    with Scanning show ?thesis by (simp add: renderAllSteps_def producerSteps_def)
  next
    case (Cons a rest)
    show ?thesis
    proof (cases a)
      case (Warn p err)
      with Cons Scanning show ?thesis by (simp add: renderAllSteps_def producerSteps_def)
    next
      case (Pkgindex d m)
      with Cons Scanning show ?thesis by (simp add: renderAllSteps_def producerSteps_def)
    next
      case (Offer j)
      show ?thesis
      proof (cases "ctxErr c")
        case (Some err)
        with Offer Cons Scanning show ?thesis
          by (simp add: renderAllSteps_def producerSteps_def offerSteps_def)
      next
        case None
        from workers_inv[OF assms(1)] assms(2) None
        have l: "0 < length (workers c)" and e: "Exited \<notin> set (workers c)" by auto
        from l e have ne: "workers c ! 0 \<noteq> Exited" by (metis nth_mem)
        show ?thesis
        proof (cases "workers c ! 0")
          case Idle
          have "concat (map (sendTo c j rest) [0..<length (workers c)]) \<noteq> []"
            by (rule in_set_not_Nil[OF sendTo_step[OF l Idle]])
          with Offer Cons Scanning show ?thesis
            by (simp add: renderAllSteps_def producerSteps_def offerSteps_def)
        next
          case (Busy j')
          from finish_step[OF l Busy] Scanning show ?thesis by (simp add: renderAllSteps_def)
        next
          case Exited
          with ne show ?thesis by simp
        qed
      qed
    qed
  qed
next
  case Waiting
  show ?thesis
  proof (cases "list_ex isBusy (workers c)")
    case True
    then obtain w where w: "w < length (workers c)" "isBusy (workers c ! w)"
      by (auto simp add: list_ex_iff in_set_conv_nth)
    then obtain j where "workers c ! w = Busy j" by (cases "workers c ! w") (simp_all add: isBusy_def)
    from finish_step[OF w(1) this] Waiting show ?thesis by (simp add: renderAllSteps_def)
  next
    case False
    with Waiting show ?thesis by (simp add: renderAllSteps_def waitSteps_def split: option.splits)
  qed
next
  case (Listing ss)
  then show ?thesis by (simp add: renderAllSteps_def listingSteps_def)
next
  case (Returned r)
  with assms(2) show ?thesis by simp
qed

section \<open>Every pass comes to an end\<close>

lemma busy_update:
  assumes "w < length ws"
  shows "busy (ws[w := v]) + (if isBusy (ws ! w) then 1 else 0) =
         busy ws + (if isBusy v then 1 else 0)"
proof -
  from assms have a: "ws = take w ws @ ws ! w # drop (Suc w) ws" by (rule id_take_nth_drop)
  from assms have b: "ws[w := v] = take w ws @ v # drop (Suc w) ws" by (rule upd_conv_take_nth_drop)
  have "busy ws = busy (take w ws @ ws ! w # drop (Suc w) ws)" using a by simp
  then show ?thesis unfolding b by (simp add: busy_def)
qed

lemma sum_removeAt:
  assumes "i < length xs"
  shows "sum_list (map f xs) = (f (xs ! i) :: nat) + sum_list (map f (removeAt i xs))"
proof -
  from assms have "xs = take i xs @ xs ! i # drop (Suc i) xs" by (rule id_take_nth_drop)
  then have "sum_list (map f xs) = sum_list (map f (take i xs @ xs ! i # drop (Suc i) xs))" by simp
  then show ?thesis by (simp add: removeAt_def)
qed

lemma length_removeAt: "i < length xs \<Longrightarrow> Suc (length (removeAt i xs)) = length xs"
  by (auto simp add: removeAt_def)

lemma stepsLeft_decreases:
  assumes "c' \<in> set (renderAllSteps W gv c)"
  shows "stepsLeft W gv c' < stepsLeft W gv c"
  using assms
proof (cases rule: renderAllSteps_cases)
  case (pick i dir files)
  with sum_removeAt[of i "todo c" "\<lambda>d. Suc (length (bodyOf W gv d))"] show ?thesis
    by (simp add: stepsLeft_def bodyOf_def)
next
  case (sent j rest w)
  with busy_update[of w "workers c" "Busy j"] show ?thesis
    by (simp add: stepsLeft_def isBusy_def)
next
  case (finished w j)
  with busy_update[of w "workers c" "case rendermanpage W j of None \<Rightarrow> Idle | Some _ \<Rightarrow> Exited"]
  show ?thesis
    by (cases "rendermanpage W j") (auto simp add: stepsLeft_def isBusy_def)
next
  case (contents_ok ss i suite bins)
  with length_removeAt[of i ss] show ?thesis by (simp add: stepsLeft_def)
qed (simp_all add: stepsLeft_def)

lemma runSchedule_bounded:
  "runSchedule W gv sched c = Some c' \<Longrightarrow> length sched + stepsLeft W gv c' \<le> stepsLeft W gv c"
proof (induction sched arbitrary: c)
  case Nil
  then show ?case by simp
next
  case (Cons i sched)
  from Cons.prems have i: "i < length (renderAllSteps W gv c)"
    and r: "runSchedule W gv sched (renderAllSteps W gv c ! i) = Some c'"
    by (simp_all split: if_splits)
  from i have "renderAllSteps W gv c ! i \<in> set (renderAllSteps W gv c)" by simp
  from stepsLeft_decreases[OF this] Cons.IH[OF r] show ?case by simp
qed

lemma runs_schedule:
  assumes "runs W gv c"
  shows "\<exists>sched. runSchedule W gv sched (renderAllStart W gv) = Some c"
  using assms
proof (induction rule: runs.induct)
  case start
  have "runSchedule W gv [] (renderAllStart W gv) = Some (renderAllStart W gv)" by simp
  then show ?case by blast
next
  case (step c c')
  then obtain sched where s: "runSchedule W gv sched (renderAllStart W gv) = Some c" by blast
  from step(2) obtain i where i: "i < length (renderAllSteps W gv c)" "renderAllSteps W gv c ! i = c'"
    by (auto simp add: in_set_conv_nth)
  have app: "runSchedule W gv (xs @ [i]) d = Some c'" if "runSchedule W gv xs d = Some c" for xs d
    using that i by (induction xs arbitrary: d) (simp_all split: if_splits)
  from app[OF s] show ?case by blast
qed

lemma pass_returns:
  assumes "runs W gv c"
  shows "\<exists>sched c' r. runSchedule W gv sched c = Some c' \<and> pc c' = Returned r"
  using assms
proof (induction "stepsLeft W gv c" arbitrary: c rule: less_induct)
  case less
  show ?case
  proof (cases "\<exists>r. pc c = Returned r")
    case True
    then obtain r where "pc c = Returned r" by blast
    then have "runSchedule W gv [] c = Some c \<and> pc c = Returned r" by simp
    then show ?thesis by blast
  next
    case False
    with no_deadlock[OF less.prems] have ne: "renderAllSteps W gv c \<noteq> []" by simp
    then have m: "renderAllSteps W gv c ! 0 \<in> set (renderAllSteps W gv c)" by simp
    from less.prems m have r: "runs W gv (renderAllSteps W gv c ! 0)" by (rule runs.step)
    from less.hyps[OF stepsLeft_decreases[OF m] r]
    obtain sched c' r where s: "runSchedule W gv sched (renderAllSteps W gv c ! 0) = Some c'"
      "pc c' = Returned r" by blast
    with ne have "runSchedule W gv (0 # sched) c = Some c' \<and> pc c' = Returned r" by simp
    then show ?thesis by blast
  qed
qed

section \<open>The directory inventory\<close>

lemma gatherBins_fail:
  assumes "bfi \<in> set bins"
    and "readDir W (filepathJoin [servingDir W, suite, Name bfi]) = Inl err"
  shows "\<exists>e. gatherBins W suite bins contents = Inl e"
  using assms
proof (induction bins arbitrary: contents)
  case Nil
  then show ?case by simp
next
  case (Cons b bins)
  show ?case
  proof (cases "readDir W (filepathJoin [servingDir W, suite, Name b])")
    case (Inl e)
    then show ?thesis by simp
  next
    case (Inr files)
    with Cons.prems have "bfi \<in> set bins" by auto
    with Cons.IH Cons.prems(2) Inr show ?thesis by simp
  qed
qed

lemma gatherBins_error:
  assumes "gatherBins W suite bins contents = Inl e"
  shows "\<exists>bfi \<in> set bins. readDir W (filepathJoin [servingDir W, suite, Name bfi]) = Inl e"
  using assms
proof (induction bins arbitrary: contents)
  case Nil
  then show ?case by simp
next
  case (Cons b bins)
  show ?case
  proof (cases "readDir W (filepathJoin [servingDir W, suite, Name b])")
    case (Inl e')
    with Cons.prems show ?thesis by simp
  next
    case (Inr files)
    with Cons.prems have "gatherBins W suite bins (AList.update (filepathJoin [servingDir W, suite, Name b]) files contents) = Inl e"
      by simp
    then have "\<exists>bfi \<in> set bins. readDir W (filepathJoin [servingDir W, suite, Name bfi]) = Inl e"
      by (rule Cons.IH)
    then show ?thesis by auto
  qed
qed

lemma gatherSuites_fail:
  assumes "sfi \<in> set suitedirs" and "IsDir sfi" and "suiteKnown gv (Name sfi)"
    and "readDir W (filepathJoin [servingDir W, Name sfi]) = Inl err \<or>
         (\<exists>bins bfi. readDir W (filepathJoin [servingDir W, Name sfi]) = Inr bins \<and> bfi \<in> set bins \<and>
            (\<exists>err. readDir W (filepathJoin [servingDir W, Name sfi, Name bfi]) = Inl err))"
  shows "\<exists>e. gatherSuites W gv suitedirs acc = Inl e"
  using assms
proof (induction suitedirs arbitrary: acc)
  case Nil
  then show ?case by simp
next
  case (Cons s suitedirs)
  obtain contents bbs where acc: "acc = (contents, bbs)" by (cases acc)
  show ?case
  proof (cases "sfi = s")
    case True
    from Cons.prems(4) show ?thesis
    proof
      assume "readDir W (filepathJoin [servingDir W, Name sfi]) = Inl err"
      with True Cons.prems(2,3) acc show ?thesis by simp
    next
      assume "\<exists>bins bfi. readDir W (filepathJoin [servingDir W, Name sfi]) = Inr bins \<and> bfi \<in> set bins \<and>
            (\<exists>err. readDir W (filepathJoin [servingDir W, Name sfi, Name bfi]) = Inl err)"
      then obtain bins bfi e where b: "readDir W (filepathJoin [servingDir W, Name sfi]) = Inr bins"
        "bfi \<in> set bins" "readDir W (filepathJoin [servingDir W, Name sfi, Name bfi]) = Inl e" by blast
      from gatherBins_fail[OF b(2,3)] obtain e' where "gatherBins W (Name sfi) bins contents = Inl e'"
        by blast
      with True Cons.prems(2,3) acc b(1) show ?thesis by simp
    qed
  next
    case False
    with Cons.prems(1) have "sfi \<in> set suitedirs" by simp
    then have ih: "\<exists>e. gatherSuites W gv suitedirs acc' = Inl e" for acc'
      using Cons.prems(2,3,4) by (rule Cons.IH)
    show ?thesis
      using ih acc by (auto split: sum.splits)
  qed
qed

lemma gatherSuites_error:
  assumes "gatherSuites W gv suitedirs acc = Inl e"
  shows "\<exists>path. readDir W path = Inl e"
  using assms
proof (induction suitedirs arbitrary: acc)
  case Nil
  then show ?case by simp
next
  case (Cons s suitedirs)
  obtain contents bbs where acc: "acc = (contents, bbs)" by (cases acc)
  show ?case
  proof (cases "IsDir s \<and> suiteKnown gv (Name s)")
    case False
    with Cons.prems acc have "gatherSuites W gv suitedirs (contents, bbs) = Inl e"
      by (auto split: if_splits)
    then show ?thesis by (rule Cons.IH)
  next
    case True
    show ?thesis
    proof (cases "readDir W (filepathJoin [servingDir W, Name s])")
      case (Inl e')
      with True Cons.prems acc show ?thesis by auto
    next
      case (Inr bins)
      show ?thesis
      proof (cases "gatherBins W (Name s) bins contents")
        case (Inl e')
        with True Inr Cons.prems acc have "e' = e" by simp
        with Inl have "gatherBins W (Name s) bins contents = Inl e" by simp
        then have "\<exists>bfi \<in> set bins. readDir W (filepathJoin [servingDir W, Name s, Name bfi]) = Inl e"
          by (rule gatherBins_error)
        then show ?thesis by auto
      next
        case (Inr contents')
        with True \<open>readDir W (filepathJoin [servingDir W, Name s]) = Inr bins\<close> Cons.prems acc
        have "gatherSuites W gv suitedirs (contents', AList.update (Name s) (map Name bins) bbs) = Inl e"
          by simp
        then show ?thesis by (rule Cons.IH)
      qed
    qed
  qed
qed

lemma gatherContents_error:
  "gatherContents W gv = Inl e \<Longrightarrow> \<exists>path. readDir W path = Inl e"
  by (cases "readDir W (servingDir W)") (auto simp add: gatherContents_def dest: gatherSuites_error)

lemma gatherBins_append:
  "gatherBins W suite (xs @ ys) contents =
     (case gatherBins W suite xs contents of
        Inl e \<Rightarrow> Inl e
      | Inr contents' \<Rightarrow> gatherBins W suite ys contents')"
  by (induction xs arbitrary: contents) (simp_all add: Let_def split: sum.splits)

lemma gatherSuites_append:
  "gatherSuites W gv (xs @ ys) acc =
     (case gatherSuites W gv xs acc of
        Inl e \<Rightarrow> Inl e
      | Inr acc' \<Rightarrow> gatherSuites W gv ys acc')"
proof (induction xs arbitrary: acc)
  case Nil
  show ?case by simp
next
  case (Cons x xs)
  obtain cs bs where "acc = (cs, bs)" by (cases acc)
  with Cons.IH show ?case by (simp split: sum.splits)
qed

section \<open>A pass that returns at its start\<close>

lemma returned_final:
  assumes "runs W gv c" and "pc (renderAllStart W gv) = Returned r"
  shows "c = renderAllStart W gv"
  using assms
proof (induction rule: runs.induct)
  case start
  show ?case by simp
next
  case (step c c')
  then have "c = renderAllStart W gv" by simp
  with step.prems have "renderAllSteps W gv c = []" by (simp add: renderAllSteps_def)
  with step.hyps(2) show ?case by simp
qed

section \<open>The temporary file\<close>

lemma tempFile_fresh:
  assumes "tempFile E fs dir prefix = Inr (f, fs1)"
  shows "fs f = None \<and> f \<in> set (tempCandidates E dir prefix) \<and>
         fs1 = fs(f \<mapsto> \<lparr> content = [], mtime = now E, perm = 0x180 \<rparr>)"
proof -
  from assms obtain n where n: "find (\<lambda>n. fs n = None) (tempCandidates E dir prefix) = Some n"
    and eq: "(f, fs1) = (n, fs(n \<mapsto> \<lparr> content = [], mtime = now E, perm = 0x180 \<rparr>))"
    by (auto simp add: tempFile_def split: option.splits)
  from n have "fs n = None \<and> n \<in> set (tempCandidates E dir prefix)"
    by (auto simp add: find_Some_iff)
  with eq show ?thesis by simp
qed

section \<open>The runs on the small tree\<close>

lemma exConfig_runs: "runs (exWorld pkgs only failing) exGv (exConfig pkgs only failing sched)"
proof (cases "exRun pkgs only failing sched")
  case None
  then show ?thesis by (simp add: exConfig_def runs.start)
next
  case (Some c)
  then have "runs (exWorld pkgs only failing) exGv c"
    unfolding exRun_def by (rule runSchedule_runs[OF runs.start])
  with Some show ?thesis by (simp add: exConfig_def)
qed

lemma exStaleDone_eval:
  "trace exStaleDone =
     [Sent 0 (exJob ''foo.1'' [''testing/foo/foo.1.gz'', ''main/foo/foo.1.gz'']),
      Warned ''/srv/man/main/foo/odd.x.gz'' ''unexpected section'',
      RenderedPkgindex ''/srv/man/main/foo/index.html.gz''
        [(''bar.1.gz'', ''main/foo/bar.1.gz''), (''foo.1.gz'', ''main/foo/foo.1.gz'')] None,
      ClosedChan,
      RenderedManpage 0 (exJob ''foo.1'' [''testing/foo/foo.1.gz'', ''main/foo/foo.1.gz'']) None,
      Waited None,
      RenderedContents ''/srv/man/contents-main.html.gz'' ''main'' [''foo''] None] \<and>
   pc exStaleDone = Returned None"
  by code_simp

lemma exIndexEarly_eval:
  "trace exIndexEarly =
     [Sent 0 (exJob ''foo.1'' [''testing/foo/foo.1.gz'', ''main/foo/foo.1.gz'']),
      Warned ''/srv/man/main/foo/odd.x.gz'' ''unexpected section'',
      RenderedPkgindex ''/srv/man/main/foo/index.html.gz''
        [(''bar.1.gz'', ''main/foo/bar.1.gz''), (''foo.1.gz'', ''main/foo/foo.1.gz'')] None] \<and>
   pc exIndexEarly = Scanning \<and>
   workers exIndexEarly ! 0 = Busy (exJob ''foo.1'' [''testing/foo/foo.1.gz'', ''main/foo/foo.1.gz''])"
  by code_simp

lemma exAfterFailure_eval:
  "trace exAfterFailure =
     [Sent 0 (exJob ''foo.1'' [''testing/foo/foo.1.gz'', ''main/foo/foo.1.gz'']),
      RenderedManpage 0 (exJob ''foo.1'' [''testing/foo/foo.1.gz'', ''main/foo/foo.1.gz''])
        (Some ''write /srv/man/main/foo/foo.1.html.gz: no space left on device''),
      Sent 1 (exJob ''foo.2'' [])] \<and>
   pc exAfterFailure = Scanning \<and>
   ctxErr exAfterFailure = Some ''write /srv/man/main/foo/foo.1.html.gz: no space left on device''"
  by code_simp

lemma exFailedDone_eval:
  "trace exFailedDone =
     [Sent 0 (exJob ''foo.1'' [''testing/foo/foo.1.gz'', ''main/foo/foo.1.gz'']),
      RenderedManpage 0 (exJob ''foo.1'' [''testing/foo/foo.1.gz'', ''main/foo/foo.1.gz''])
        (Some ''write /srv/man/main/foo/foo.1.html.gz: no space left on device''),
      Sent 1 (exJob ''foo.2'' []),
      RenderedManpage 1 (exJob ''foo.2'' []) None,
      RenderedPkgindex ''/srv/man/main/foo/index.html.gz''
        [(''foo.1.gz'', ''main/foo/foo.1.gz''), (''foo.2.gz'', ''main/foo/foo.2.gz'')] None,
      ClosedChan,
      Waited (Some ''write /srv/man/main/foo/foo.1.html.gz: no space left on device'')] \<and>
   pc exFailedDone = Returned (Some ''write /srv/man/main/foo/foo.1.html.gz: no space left on device'')"
  by code_simp

lemma exDropped_eval:
  "trace exDropped =
     [Sent 0 (exJob ''foo.1'' [''testing/foo/foo.1.gz'', ''main/foo/foo.1.gz'']),
      RenderedManpage 0 (exJob ''foo.1'' [''testing/foo/foo.1.gz'', ''main/foo/foo.1.gz''])
        (Some ''write /srv/man/main/foo/foo.1.html.gz: no space left on device''),
      Skipped (exJob ''foo.2'' []),
      RenderedPkgindex ''/srv/man/main/foo/index.html.gz''
        [(''foo.1.gz'', ''main/foo/foo.1.gz''), (''foo.2.gz'', ''main/foo/foo.2.gz'')] None,
      ClosedChan,
      Waited (Some ''write /srv/man/main/foo/foo.1.html.gz: no space left on device'')] \<and>
   pc exDropped = Returned (Some ''write /srv/man/main/foo/foo.1.html.gz: no space left on device'')"
  by code_simp

lemma exStale_staleJobs:
  "staleJobs exStaleWorld exGv = [exJob ''foo.1'' [''testing/foo/foo.1.gz'', ''main/foo/foo.1.gz'']]"
  by code_simp

lemma exTwo_staleJobs:
  "staleJobs exTwoWorld exGv =
     [exJob ''foo.1'' [''testing/foo/foo.1.gz'', ''main/foo/foo.1.gz''], exJob ''foo.2'' []]"
  by code_simp

lemma exFreshDone_eval:
  "trace exFreshDone =
     [ClosedChan, Waited None,
      RenderedContents ''/srv/man/contents-main.html.gz'' ''main'' [''foo''] None] \<and>
   pc exFreshDone = Returned None \<and>
   binsBySuite exFreshDone = [(''main'', [''foo''])]"
  by code_simp

lemma exFresh_freshTree: "freshTree exFreshWorld exGv"
  by code_simp

section \<open>The restriction to some packages\<close>

text \<open>White space around the value of \<^verbatim>\<open>onlyRender\<close> is trimmed, a no-break space
  (U+00A0) included; white space inside is kept.\<close>

lemma exOnly_whitelist:
  "whitelist (exWorld [(''foo'', exStaleFiles)] ([CHR 0xC2, CHR 0xA0] @ ''foo, bar'' @ [CHR 0x0A]) []) =
     Some [''foo'', '' bar''] \<and>
   \<not> skippedDir (exWorld [(''foo'', exStaleFiles)] ([CHR 0xC2, CHR 0xA0] @ ''foo, bar'' @ [CHR 0x0A]) [])
       exFooDir \<and>
   skippedDir (exWorld [(''foo'', exStaleFiles)] ([CHR 0xC2, CHR 0xA0] @ ''foo, bar'' @ [CHR 0x0A]) [])
       ''/srv/man/main/bar''"
  by code_simp

chapter \<open>The claims\<close>

section \<open>C1: when the index pages and the listing pages are rendered\<close>

text \<open>
  Claim C1 says that an index page is regenerated only after every render job has been
  taken from the channel and the worker pool has come to rest, and a listing page only
  after all index pages. The first half fails: \<^verbatim>\<open>renderPkgindex\<close> is called inside the
  loop over the directories (lines 220 to 226), before \<^verbatim>\<open>close(renderChan)\<close> and
  \<^verbatim>\<open>eg.Wait()\<close> (lines 228 and 229).

  As amended: in every run, every index page is rendered before the channel is closed
  and before \<^verbatim>\<open>eg.Wait()\<close> returns, so jobs may still be running or not yet offered
  then; and every listing page is rendered after everything else: after
  \<^verbatim>\<open>eg.Wait()\<close> has returned \<^verbatim>\<open>nil\<close>, when the loop over the directories is over,
  no worker is in a call, every job sent has been rendered, and no call of
  \<^verbatim>\<open>rendermanpage\<close> or \<^verbatim>\<open>renderPkgindex\<close> has failed.
\<close>

theorem aggregation_order:
  assumes "runs W gv c"
  shows "precedes isRenderedPkgindex isClosedChan (trace c) \<and>
         precedes isRenderedPkgindex isWaited (trace c) \<and>
         precedes (\<lambda>ev. \<not> isRenderedContents ev) isRenderedContents (trace c) \<and>
         (list_ex isRenderedContents (trace c) \<longrightarrow>
            Waited None \<in> set (trace c) \<and> \<not> list_ex isBusy (workers c) \<and>
            todo c = [] \<and> cur c = [] \<and> \<not> list_ex isFailedRender (trace c) \<and>
            (\<forall>w j. Sent w j \<in> set (trace c) \<longrightarrow> RenderedManpage w j None \<in> set (trace c)))"
proof -
  note idx = pkgindex_order_inv[OF assms]
  note last = contents_last_inv[OF assms]
  have after: "list_ex isRenderedContents (trace c) \<longrightarrow>
            Waited None \<in> set (trace c) \<and> \<not> list_ex isBusy (workers c) \<and>
            todo c = [] \<and> cur c = [] \<and> \<not> list_ex isFailedRender (trace c) \<and>
            (\<forall>w j. Sent w j \<in> set (trace c) \<longrightarrow> RenderedManpage w j None \<in> set (trace c))"
  proof
    assume "list_ex isRenderedContents (trace c)"
    with assms have s: "Waited None \<in> set (trace c) \<and> ctxErr c = None \<and>
        \<not> list_ex isBusy (workers c) \<and> todo c = [] \<and> cur c = [] \<and>
        \<not> list_ex isFailedRender (trace c)"
      by (intro settled_inv) simp_all
    have "RenderedManpage w j None \<in> set (trace c)" if sent: "Sent w j \<in> set (trace c)" for w j
    proof -
      from sent_inv[OF assms sent] s not_busy_nth[of "workers c" w j]
      obtain r where r: "RenderedManpage w j r \<in> set (trace c)" by blast
      show ?thesis
      proof (cases r)
        case None
        with r show ?thesis by simp
      next
        case (Some err)
        with r have "list_ex isFailedRender (trace c)" by (simp add: failed_manpage_in_trace)
        with s show ?thesis by simp
      qed
    qed
    with s show "Waited None \<in> set (trace c) \<and> \<not> list_ex isBusy (workers c) \<and>
            todo c = [] \<and> cur c = [] \<and> \<not> list_ex isFailedRender (trace c) \<and>
            (\<forall>w j. Sent w j \<in> set (trace c) \<longrightarrow> RenderedManpage w j None \<in> set (trace c))"
      by blast
  qed
  from idx last after show ?thesis by blast
qed

theorem aggregation_order_witness:
  "runs exStaleWorld exGv exStaleDone \<and>
   list_ex isRenderedContents (trace exStaleDone) \<and>
   precedes isRenderedPkgindex isClosedChan (trace exStaleDone) \<and>
   precedes isRenderedPkgindex isWaited (trace exStaleDone) \<and>
   precedes (\<lambda>ev. \<not> isRenderedContents ev) isRenderedContents (trace exStaleDone) \<and>
   Waited None \<in> set (trace exStaleDone) \<and>
   \<not> list_ex isBusy (workers exStaleDone) \<and>
   \<not> list_ex isFailedRender (trace exStaleDone) \<and>
   Sent 0 (exJob ''foo.1'' [''testing/foo/foo.1.gz'', ''main/foo/foo.1.gz'']) \<in> set (trace exStaleDone) \<and>
   RenderedManpage 0 (exJob ''foo.1'' [''testing/foo/foo.1.gz'', ''main/foo/foo.1.gz'']) None
     \<in> set (trace exStaleDone)"
proof -
  have r: "runs exStaleWorld exGv exStaleDone"
    unfolding exStaleWorld_def exStaleDone_def by (rule exConfig_runs)
  have l: "list_ex isRenderedContents (trace exStaleDone)"
    by (simp add: exStaleDone_eval event_simps)
  have s: "Sent 0 (exJob ''foo.1'' [''testing/foo/foo.1.gz'', ''main/foo/foo.1.gz'']) \<in> set (trace exStaleDone)"
    by (simp add: exStaleDone_eval)
  from aggregation_order[OF r] l s r show ?thesis by blast
qed

text \<open>The claim as stated fails on the stale package: after four steps the index page
  of \<^verbatim>\<open>main/foo\<close> has been rendered while worker 0 is still rendering \<^verbatim>\<open>foo.1\<close> of
  that directory, the channel is open and \<^verbatim>\<open>eg.Wait()\<close> has not been called.\<close>

theorem index_rendered_before_join:
  "runs exStaleWorld exGv exIndexEarly \<and>
   trace exIndexEarly =
     [Sent 0 (exJob ''foo.1'' [''testing/foo/foo.1.gz'', ''main/foo/foo.1.gz'']),
      Warned ''/srv/man/main/foo/odd.x.gz'' ''unexpected section'',
      RenderedPkgindex ''/srv/man/main/foo/index.html.gz''
        [(''bar.1.gz'', ''main/foo/bar.1.gz''), (''foo.1.gz'', ''main/foo/foo.1.gz'')] None] \<and>
   pc exIndexEarly = Scanning \<and>
   workers exIndexEarly ! 0 = Busy (exJob ''foo.1'' [''testing/foo/foo.1.gz'', ''main/foo/foo.1.gz'']) \<and>
   \<not> list_ex isClosedChan (trace exIndexEarly) \<and>
   \<not> list_ex isWaited (trace exIndexEarly) \<and>
   \<not> list_ex isRenderedManpage (trace exIndexEarly)"
proof -
  have r: "runs exStaleWorld exGv exIndexEarly"
    unfolding exStaleWorld_def exIndexEarly_def by (rule exConfig_runs)
  have n: "\<not> list_ex isClosedChan (trace exIndexEarly) \<and> \<not> list_ex isWaited (trace exIndexEarly) \<and>
      \<not> list_ex isRenderedManpage (trace exIndexEarly)"
    by (simp add: exIndexEarly_eval event_simps)
  from r n exIndexEarly_eval show ?thesis by blast
qed

section \<open>C2: a pass over a tree that is up to date\<close>

text \<open>
  Claim C2 says that a second pass right after a successful one renders nothing and
  writes nothing, no listing page either. The loop over \<^verbatim>\<open>binsBySuite\<close> (lines 233 to
  237) calls \<^verbatim>\<open>renderContents\<close> for every suite in every pass; nothing compares
  modification times there.

  As amended: on a tree in which every source that parses has a rendered page that is
  not older and no source is newer than the index page of its directory, no job is
  offered (none sent, none skipped), \<^verbatim>\<open>rendermanpage\<close> and \<^verbatim>\<open>renderPkgindex\<close> are not
  called, and a pass that returns \<^verbatim>\<open>nil\<close> has rendered the listing page of every suite
  of the inventory.
\<close>

theorem pass_on_fresh_tree:
  assumes "freshTree W gv" and "runs W gv c"
  shows "\<not> list_ex isSent (trace c) \<and> \<not> list_ex isSkipped (trace c) \<and>
         \<not> list_ex isRenderedManpage (trace c) \<and> \<not> list_ex isRenderedPkgindex (trace c) \<and>
         (pc c = Returned None \<longrightarrow>
            (\<forall>(s, b) \<in> set (binsBySuite c).
               RenderedContents (contentsPath W s) s b None \<in> set (trace c))) \<and>
         (\<forall>contents bins. gatherContents W gv = Inr (contents, bins) \<longrightarrow> binsBySuite c = bins)"
proof -
  note fr = fresh_inv[OF assms]
  have cover: "pc c = Returned None \<longrightarrow>
            (\<forall>(s, b) \<in> set (binsBySuite c).
               RenderedContents (contentsPath W s) s b None \<in> set (trace c))"
    using returned_cover[OF assms(2)] by blast
  have bins: "\<forall>contents bins. gatherContents W gv = Inr (contents, bins) \<longrightarrow> binsBySuite c = bins"
    using binsBySuite_inv[OF assms(2)] by blast
  from fr cover bins show ?thesis by blast
qed

theorem pass_on_fresh_tree_witness:
  "freshTree exFreshWorld exGv \<and>
   runs exFreshWorld exGv exFreshDone \<and>
   pc exFreshDone = Returned None \<and>
   \<not> list_ex isSent (trace exFreshDone) \<and> \<not> list_ex isSkipped (trace exFreshDone) \<and>
   \<not> list_ex isRenderedManpage (trace exFreshDone) \<and>
   \<not> list_ex isRenderedPkgindex (trace exFreshDone) \<and>
   (''main'', [''foo'']) \<in> set (binsBySuite exFreshDone) \<and>
   RenderedContents (contentsPath exFreshWorld ''main'') ''main'' [''foo''] None
     \<in> set (trace exFreshDone)"
proof -
  have r: "runs exFreshWorld exGv exFreshDone"
    unfolding exFreshWorld_def exFreshDone_def by (rule exConfig_runs)
  have p: "pc exFreshDone = Returned None" by (simp add: exFreshDone_eval)
  have b: "(''main'', [''foo'']) \<in> set (binsBySuite exFreshDone)" by (simp add: exFreshDone_eval)
  from pass_on_fresh_tree[OF exFresh_freshTree r] p b
  have "RenderedContents (contentsPath exFreshWorld ''main'') ''main'' [''foo''] None
     \<in> set (trace exFreshDone)" by blast
  with pass_on_fresh_tree[OF exFresh_freshTree r] exFresh_freshTree r p b show ?thesis by blast
qed

text \<open>The claim as stated fails on the second scenario of the specification (source at
  100, rendered page at 200, index page at 300): the pass returns \<^verbatim>\<open>nil\<close> after
  rendering \<^verbatim>\<open>contents-main.html.gz\<close>.\<close>

theorem listing_rendered_on_fresh_tree:
  "freshTree exFreshWorld exGv \<and>
   readDir exFreshWorld ''/srv/man/main/foo'' =
     Inr [exFile ''foo.1.gz'' 100, exFile ''foo.1.html.gz'' 200, exFile ''index.html.gz'' 300] \<and>
   runs exFreshWorld exGv exFreshDone \<and>
   pc exFreshDone = Returned None \<and>
   trace exFreshDone =
     [ClosedChan, Waited None,
      RenderedContents ''/srv/man/contents-main.html.gz'' ''main'' [''foo''] None]"
proof -
  have r: "runs exFreshWorld exGv exFreshDone"
    unfolding exFreshWorld_def exFreshDone_def by (rule exConfig_runs)
  have d: "readDir exFreshWorld ''/srv/man/main/foo'' =
     Inr [exFile ''foo.1.gz'' 100, exFile ''foo.1.html.gz'' 200, exFile ''index.html.gz'' 300]"
    by code_simp
  from exFresh_freshTree d r exFreshDone_eval show ?thesis by blast
qed

section \<open>C3: writeAtomically changes the destination by the rename only\<close>

text \<open>
  Claim C3. Take a destination that names a file, or that is none of the names
  \<^verbatim>\<open>ioutil.TempFile\<close> may give the temporary file (it creates the file exclusively, so
  it never takes the name of a file that exists). If \<^verbatim>\<open>writeAtomically\<close> returns an
  error, whichever step failed (creating the temporary file, the producer, closing the
  compressor, flushing the buffer, \<^verbatim>\<open>Chmod\<close>, \<^verbatim>\<open>Close\<close> or \<^verbatim>\<open>Rename\<close>), the
  destination is what it was: the same content, modification time and mode, or still
  absent. The destination changes only when every step has succeeded, and then it is the
  temporary file renamed: the compressed payload with mode 0644. The call returns
  \<^verbatim>\<open>nil\<close> exactly when every step succeeds.
\<close>

theorem writeAtomically_all_or_nothing:
  assumes "writeAtomically E fs destPath write = (r, fs')"
    and "fs destPath \<noteq> None \<or>
         destPath \<notin> set (tempCandidates E (filepathDir destPath) ''debiman-'')"
  shows "(r \<noteq> None \<longrightarrow> fs' destPath = fs destPath) \<and>
         (fs' destPath \<noteq> fs destPath \<longrightarrow>
            r = None \<and> openErr E = None \<and> fst (write []) = None \<and> gzipCloseErr E = None \<and>
            flushErr E = None \<and> chmodErr E = None \<and> closeErr E = None \<and> renameErr E = None) \<and>
         (r = None \<longrightarrow>
            fs' destPath =
              Some \<lparr> content = gzip E (snd (write [])), mtime = now E, perm = 0x1A4 \<rparr>) \<and>
         (r = None) =
            ((\<exists>t. tempFile E fs (filepathDir destPath) ''debiman-'' = Inr t) \<and>
             fst (write []) = None \<and> gzipCloseErr E = None \<and> flushErr E = None \<and>
             chmodErr E = None \<and> closeErr E = None \<and> renameErr E = None)"
proof (cases "tempFile E fs (filepathDir destPath) ''debiman-''")
  case (Inl err)
  with assms(1) show ?thesis by (auto simp add: writeAtomically_def)
next
  case (Inr p)
  obtain f fs1 where p: "p = (f, fs1)" by (cases p)
  from Inr p have t: "tempFile E fs (filepathDir destPath) ''debiman-'' = Inr (f, fs1)" by simp
  from tempFile_fresh[OF t]
  have fr: "fs f = None" "f \<in> set (tempCandidates E (filepathDir destPath) ''debiman-'')"
    "fs1 = fs(f \<mapsto> \<lparr> content = [], mtime = now E, perm = 0x180 \<rparr>)" by simp_all
  with assms(2) have ne: "f \<noteq> destPath" by auto
  from t have o: "openErr E = None" by (simp add: tempFile_def split: option.splits)
  obtain werr payload where w: "write [] = (werr, payload)" by (cases "write []")
  let ?partial = "fs1(f \<mapsto> \<lparr> content = take (spilled E) (gzip E payload),
                               mtime = now E, perm = 0x180 \<rparr>)"
  let ?fs2 = "fs1(f \<mapsto> \<lparr> content = gzip E payload, mtime = now E, perm = 0x180 \<rparr>)"
  let ?fs3 = "fs1(f \<mapsto> \<lparr> content = gzip E payload, mtime = now E, perm = 0x1A4 \<rparr>)"
  have "writeAtomically E fs destPath write =
      (case werr of Some err \<Rightarrow> (Some err, ?partial) | None \<Rightarrow>
       (case gzipCloseErr E of Some err \<Rightarrow> (Some err, ?partial) | None \<Rightarrow>
       (case flushErr E of Some err \<Rightarrow> (Some err, ?partial) | None \<Rightarrow>
       (case chmodErr E of Some err \<Rightarrow> (Some err, ?fs2) | None \<Rightarrow>
       (case closeErr E of Some err \<Rightarrow> (Some err, ?fs3) | None \<Rightarrow>
       (case renameErr E of Some err \<Rightarrow> (Some err, ?fs3) | None \<Rightarrow>
          (None, osRename ?fs3 f destPath)))))))"
    using t w by (simp add: writeAtomically_def Let_def split: option.splits)
  with assms(1) have run: "(r, fs') =
      (case werr of Some err \<Rightarrow> (Some err, ?partial) | None \<Rightarrow>
       (case gzipCloseErr E of Some err \<Rightarrow> (Some err, ?partial) | None \<Rightarrow>
       (case flushErr E of Some err \<Rightarrow> (Some err, ?partial) | None \<Rightarrow>
       (case chmodErr E of Some err \<Rightarrow> (Some err, ?fs2) | None \<Rightarrow>
       (case closeErr E of Some err \<Rightarrow> (Some err, ?fs3) | None \<Rightarrow>
       (case renameErr E of Some err \<Rightarrow> (Some err, ?fs3) | None \<Rightarrow>
          (None, osRename ?fs3 f destPath)))))))"
    by (rule trans[OF sym])
  have same: "?partial destPath = fs destPath" "?fs2 destPath = fs destPath"
    "?fs3 destPath = fs destPath"
    using ne fr(3) by simp_all
  have renamed: "osRename ?fs3 f destPath destPath =
      Some \<lparr> content = gzip E payload, mtime = now E, perm = 0x1A4 \<rparr>"
    using ne by (simp add: osRename_def)
  show ?thesis
  proof (cases "werr = None \<and> gzipCloseErr E = None \<and> flushErr E = None \<and> chmodErr E = None \<and>
      closeErr E = None \<and> renameErr E = None")
    case True
    with run have "r = None" and "fs' = osRename ?fs3 f destPath" by simp_all
    with renamed True t w o show ?thesis by simp
  next
    case False
    have "r \<noteq> None \<and> fs' destPath = fs destPath"
    proof (cases "werr")
      case (Some e)
      with run  have "r = Some e" and "fs' = ?partial" by simp_all
      with same show ?thesis by simp
    next
      case n0: None
      show ?thesis
      proof (cases "gzipCloseErr E")
        case (Some e)
        with run n0 have "r = Some e" and "fs' = ?partial" by simp_all
        with same show ?thesis by simp
      next
        case n1: None
        show ?thesis
        proof (cases "flushErr E")
          case (Some e)
          with run n0 n1 have "r = Some e" and "fs' = ?partial" by simp_all
          with same show ?thesis by simp
        next
          case n2: None
          show ?thesis
          proof (cases "chmodErr E")
            case (Some e)
            with run n0 n1 n2 have "r = Some e" and "fs' = ?fs2" by simp_all
            with same show ?thesis by simp
          next
            case n3: None
            show ?thesis
            proof (cases "closeErr E")
              case (Some e)
              with run n0 n1 n2 n3 have "r = Some e" and "fs' = ?fs3" by simp_all
              with same show ?thesis by simp
            next
              case n4: None
              show ?thesis
              proof (cases "renameErr E")
                case (Some e)
                with run n0 n1 n2 n3 n4 have "r = Some e" and "fs' = ?fs3" by simp_all
                with same show ?thesis by simp
              next
                case n5: None
                with False n0 n1 n2 n3 n4 show ?thesis by simp
              qed
            qed
          qed
        qed
      qed
    qed
    with False w show ?thesis by auto
  qed
qed

theorem writeAtomically_all_or_nothing_witness:
  "writeAtomically exOs exFs ''/srv/man/main/foo/index.html.gz'' exFailingProducer =
     (Some ''template: executing pkgindex: broken pipe'',
      snd (writeAtomically exOs exFs ''/srv/man/main/foo/index.html.gz'' exFailingProducer)) \<and>
   exFs ''/srv/man/main/foo/index.html.gz'' = Some exOldIndex \<and>
   snd (writeAtomically exOs exFs ''/srv/man/main/foo/index.html.gz'' exFailingProducer)
       ''/srv/man/main/foo/index.html.gz'' = Some exOldIndex \<and>
   snd (writeAtomically exOs exFs ''/srv/man/main/foo/index.html.gz'' exFailingProducer)
       ''/srv/man/main/foo/debiman-987654321'' =
     Some \<lparr> content = ''gz:<h'', mtime = 400, perm = 0x180 \<rparr> \<and>
   writeAtomically exOs exFs ''/srv/man/main/foo/index.html.gz'' exProducer =
     (None, snd (writeAtomically exOs exFs ''/srv/man/main/foo/index.html.gz'' exProducer)) \<and>
   snd (writeAtomically exOs exFs ''/srv/man/main/foo/index.html.gz'' exProducer)
       ''/srv/man/main/foo/index.html.gz'' =
     Some \<lparr> content = ''gz:<html>new index</html>'', mtime = 400, perm = 0x1A4 \<rparr>"
proof -
  have old: "exFs ''/srv/man/main/foo/index.html.gz'' = Some exOldIndex" by code_simp
  then have h: "exFs ''/srv/man/main/foo/index.html.gz'' \<noteq> None \<or>
      ''/srv/man/main/foo/index.html.gz'' \<notin>
        set (tempCandidates exOs (filepathDir ''/srv/man/main/foo/index.html.gz'') ''debiman-'')"
    by simp
  have f1: "fst (writeAtomically exOs exFs ''/srv/man/main/foo/index.html.gz'' exFailingProducer) =
      Some ''template: executing pkgindex: broken pipe''" by code_simp
  then have e1: "writeAtomically exOs exFs ''/srv/man/main/foo/index.html.gz'' exFailingProducer =
     (Some ''template: executing pkgindex: broken pipe'',
      snd (writeAtomically exOs exFs ''/srv/man/main/foo/index.html.gz'' exFailingProducer))"
    by (simp add: prod_eq_iff)
  from writeAtomically_all_or_nothing[OF e1 h] old
  have keep: "snd (writeAtomically exOs exFs ''/srv/man/main/foo/index.html.gz'' exFailingProducer)
       ''/srv/man/main/foo/index.html.gz'' = Some exOldIndex" by simp
  have tmp: "snd (writeAtomically exOs exFs ''/srv/man/main/foo/index.html.gz'' exFailingProducer)
       ''/srv/man/main/foo/debiman-987654321'' =
     Some \<lparr> content = ''gz:<h'', mtime = 400, perm = 0x180 \<rparr>" by code_simp
  have f2: "fst (writeAtomically exOs exFs ''/srv/man/main/foo/index.html.gz'' exProducer) = None"
    by code_simp
  then have e2: "writeAtomically exOs exFs ''/srv/man/main/foo/index.html.gz'' exProducer =
     (None, snd (writeAtomically exOs exFs ''/srv/man/main/foo/index.html.gz'' exProducer))"
    by (simp add: prod_eq_iff)
  have g: "gzip exOs (snd (exProducer [])) = ''gz:<html>new index</html>'' \<and> now exOs = 400"
    by code_simp
  from writeAtomically_all_or_nothing[OF e2 h] g
  have new: "snd (writeAtomically exOs exFs ''/srv/man/main/foo/index.html.gz'' exProducer)
       ''/srv/man/main/foo/index.html.gz'' =
     Some \<lparr> content = ''gz:<html>new index</html>'', mtime = 400, perm = 0x1A4 \<rparr>" by simp
  from e1 old keep tmp e2 new show ?thesis by blast
qed

section \<open>C4: which entries get a render job\<close>

text \<open>
  Claim C4 says that a render job is emitted for a compressed source that parses if and only
  if its rendered page is absent or strictly older. The loop body builds the job and offers
  it on \<^verbatim>\<open>renderChan\<close> exactly then, but an offer is not always a handoff: once a call
  of \<^verbatim>\<open>rendermanpage\<close> has failed, the \<^verbatim>\<open>select\<close> of lines 206 to 216 may take
  \<^verbatim>\<open>ctx.Done()\<close>, and the job of a stale source is dropped.

  As amended. For an entry that is a compressed source (suffix \<^verbatim>\<open>.gz\<close>, not
  \<^verbatim>\<open>.html.gz\<close>, no symbolic link) and whose serving path parses, the loop body builds
  a \<^verbatim>\<open>renderJob\<close> and offers it if and only if the entry named like the source with
  \<^verbatim>\<open>.gz\<close> replaced by \<^verbatim>\<open>.html.gz\<close> is absent from the listing of the directory or
  has a modification time strictly before the source's; the jobs of a directory are
  those of its stale sources that parse, in the order of the listing, each from the source
  path to the path of the rendered page, and with an empty \<^verbatim>\<open>onlyRender\<close> no directory
  is left out. In every run the jobs handed to a worker and the jobs dropped are jobs of
  stale sources of the inventory, none more often than it is offered; once the loop over
  the directories has ended they are exactly the jobs of all stale sources; no job is
  dropped unless a call of \<^verbatim>\<open>rendermanpage\<close> has failed before; and when the pass
  returns \<^verbatim>\<open>nil\<close> every one of these jobs has been handed to a worker and rendered.
  At an offer the steps of the pass are the handoff to any waiting worker, the drop when
  the context is done, and the return of a worker's call; a pass that has not returned
  always has a step, no run goes on for ever, and every run can be continued to a return.
\<close>

theorem render_job_emission:
  assumes "runs W gv c"
  shows
   "(isSource dir f \<and> \<not> isSymlink f \<and> parsed W dir f = Inr m \<longrightarrow>
      offered (body (scanFile W gv dir fbn imt f st)) =
        offered (body st) @ (if needsRender fbn f then [jobFor W gv dir f m] else [])) \<and>
   offered (dirBody W gv dir files) =
     concat (map (\<lambda>f. case parsed W dir f of Inl _ \<Rightarrow> [] | Inr m \<Rightarrow> [jobFor W gv dir f m])
       (filter (\<lambda>f. isSource dir f \<and> \<not> isSymlink f \<and> needsRender (fileByNameOf files) f) files)) \<and>
   (distinct (map Name files) \<longrightarrow>
      needsRender (fileByNameOf files) f =
        (htmlName f \<notin> Name ` set files \<or>
         (\<exists>html \<in> set files. Name html = htmlName f \<and> Before (ModTime html) (ModTime f)))) \<and>
   src (jobFor W gv dir f m) = filepathJoin [dir, Name f] \<and>
   dest (jobFor W gv dir f m) = filepathJoin [dir, trimSuffix (Name f) ''.gz'' @ ''.html.gz''] \<and>
   dirJobs W gv (dir, files) =
     (if skippedDir W dir then [] else offered (dirBody W gv dir files)) \<and>
   (onlyRender W = [] \<longrightarrow> \<not> skippedDir W dir) \<and>
   (\<forall>contents bins. gatherContents W gv = Inr (contents, bins) \<longrightarrow>
      staleJobs W gv = concat (map (dirJobs W gv) contents)) \<and>
   mset (sentJobs (trace c)) + mset (droppedJobs (trace c)) \<subseteq># mset (staleJobs W gv) \<and>
   (list_ex isClosedChan (trace c) \<longrightarrow>
      mset (sentJobs (trace c)) + mset (droppedJobs (trace c)) = mset (staleJobs W gv)) \<and>
   (firstRenderError (trace c) = None \<longrightarrow> droppedJobs (trace c) = []) \<and>
   (pc c = Returned None \<longrightarrow>
      (\<forall>j \<in> set (staleJobs W gv).
         \<exists>w. Sent w j \<in> set (trace c) \<and> RenderedManpage w j None \<in> set (trace c))) \<and>
   (\<forall>j rest. pc c = Scanning \<and> cur c = Offer j # rest \<longrightarrow>
      set (renderAllSteps W gv c) =
        {c\<lparr> cur := rest, workers := (workers c)[w := Busy j], trace := trace c @ [Sent w j] \<rparr> | w.
           w < length (workers c) \<and> workers c ! w = Idle} \<union>
        (case ctxErr c of
           None \<Rightarrow> {}
         | Some _ \<Rightarrow> {c\<lparr> cur := rest, trace := trace c @ [Skipped j] \<rparr>}) \<union>
        set (workerSteps W c)) \<and>
   ((\<forall>r. pc c \<noteq> Returned r) \<longrightarrow> renderAllSteps W gv c \<noteq> []) \<and>
   (\<forall>sched c'. runSchedule W gv sched c = Some c' \<longrightarrow> length sched \<le> stepsLeft W gv c) \<and>
   (\<exists>sched c' r. runSchedule W gv sched c = Some c' \<and> pc c' = Returned r)"
proof -
  have one: "isSource dir f \<and> \<not> isSymlink f \<and> parsed W dir f = Inr m \<longrightarrow>
      offered (body (scanFile W gv dir fbn imt f st)) =
        offered (body st) @ (if needsRender fbn f then [jobFor W gv dir f m] else [])"
    by (simp add: offered_scanFile)
  have all: "offered (dirBody W gv dir files) =
     concat (map (\<lambda>f. case parsed W dir f of Inl _ \<Rightarrow> [] | Inr m \<Rightarrow> [jobFor W gv dir f m])
       (filter (\<lambda>f. isSource dir f \<and> \<not> isSymlink f \<and> needsRender (fileByNameOf files) f) files))"
    by (simp only: offered_dirBody concat_map_filter_if)
  have stale: "distinct (map Name files) \<longrightarrow>
      needsRender (fileByNameOf files) f =
        (htmlName f \<notin> Name ` set files \<or>
         (\<exists>html \<in> set files. Name html = htmlName f \<and> Before (ModTime html) (ModTime f)))"
    using needsRender_snapshot[of files f] by blast
  have job: "src (jobFor W gv dir f m) = filepathJoin [dir, Name f] \<and>
   dest (jobFor W gv dir f m) = filepathJoin [dir, trimSuffix (Name f) ''.gz'' @ ''.html.gz'']"
    by (simp add: jobFor_def Let_def htmlName_def)
  have djobs: "dirJobs W gv (dir, files) =
     (if skippedDir W dir then [] else offered (dirBody W gv dir files))"
    by (simp add: dirJobs_def bodyOf_def)
  have visit: "onlyRender W = [] \<longrightarrow> \<not> skippedDir W dir"
    by (simp add: skippedDir_def whitelist_def)
  have sjobs: "\<forall>contents bins. gatherContents W gv = Inr (contents, bins) \<longrightarrow>
      staleJobs W gv = concat (map (dirJobs W gv) contents)"
    by (simp add: staleJobs_def)
  note bound = jobs_bound[OF assms]
  have closed: "list_ex isClosedChan (trace c) \<longrightarrow>
      mset (sentJobs (trace c)) + mset (droppedJobs (trace c)) = mset (staleJobs W gv)"
    using jobs_closed[OF assms] by blast
  have nodrop: "firstRenderError (trace c) = None \<longrightarrow> droppedJobs (trace c) = []"
    using dropped_inv[OF assms] ctxErr_inv[OF assms] by auto
  have rendered: "pc c = Returned None \<longrightarrow>
      (\<forall>j \<in> set (staleJobs W gv).
         \<exists>w. Sent w j \<in> set (trace c) \<and> RenderedManpage w j None \<in> set (trace c))"
    using jobs_rendered[OF assms] by blast
  have offer: "\<forall>j rest. pc c = Scanning \<and> cur c = Offer j # rest \<longrightarrow>
      set (renderAllSteps W gv c) =
        {c\<lparr> cur := rest, workers := (workers c)[w := Busy j], trace := trace c @ [Sent w j] \<rparr> | w.
           w < length (workers c) \<and> workers c ! w = Idle} \<union>
        (case ctxErr c of
           None \<Rightarrow> {}
         | Some _ \<Rightarrow> {c\<lparr> cur := rest, trace := trace c @ [Skipped j] \<rparr>}) \<union>
        set (workerSteps W c)"
    using offer_steps[of c _ _ W gv] by blast
  have live: "(\<forall>r. pc c \<noteq> Returned r) \<longrightarrow> renderAllSteps W gv c \<noteq> []"
    using no_deadlock[OF assms] by blast
  have finite: "\<forall>sched c'. runSchedule W gv sched c = Some c' \<longrightarrow> length sched \<le> stepsLeft W gv c"
    using runSchedule_bounded[of W gv _ c] by fastforce
  note returns = pass_returns[OF assms]
  from one all stale job djobs visit sjobs bound closed nodrop rendered offer live finite returns
  show ?thesis by blast
qed

theorem render_job_emission_witness:
  "runs exStaleWorld exGv exStaleDone \<and>
   distinct (map Name exStaleFiles) \<and>
   isSource exFooDir (exFile ''foo.1.gz'' 100) \<and> \<not> isSymlink (exFile ''foo.1.gz'' 100) \<and>
   parsed exStaleWorld exFooDir (exFile ''foo.1.gz'' 100) = Inr ''main/foo/foo.1.gz'' \<and>
   htmlName (exFile ''foo.1.gz'' 100) \<notin> Name ` set exStaleFiles \<and>
   needsRender (fileByNameOf exStaleFiles) (exFile ''foo.1.gz'' 100) \<and>
   isSource exFooDir (exFile ''bar.1.gz'' 50) \<and> \<not> isSymlink (exFile ''bar.1.gz'' 50) \<and>
   parsed exStaleWorld exFooDir (exFile ''bar.1.gz'' 50) = Inr ''main/foo/bar.1.gz'' \<and>
   \<not> needsRender (fileByNameOf exStaleFiles) (exFile ''bar.1.gz'' 50) \<and>
   onlyRender exStaleWorld = [] \<and>
   dirJobs exStaleWorld exGv (exFooDir, exStaleFiles) =
     [\<lparr> dest = ''/srv/man/main/foo/foo.1.html.gz'', src = ''/srv/man/main/foo/foo.1.gz'',
        meta = ''main/foo/foo.1.gz'',
        versions = [''testing/foo/foo.1.gz'', ''main/foo/foo.1.gz''],
        jxref = [(''foo.1'', [''testing/foo/foo.1.gz'', ''main/foo/foo.1.gz''])] \<rparr>] \<and>
   staleJobs exStaleWorld exGv = [exJob ''foo.1'' [''testing/foo/foo.1.gz'', ''main/foo/foo.1.gz'']] \<and>
   pc exStaleDone = Returned None \<and>
   list_ex isClosedChan (trace exStaleDone) \<and>
   firstRenderError (trace exStaleDone) = None \<and>
   sentJobs (trace exStaleDone) = [exJob ''foo.1'' [''testing/foo/foo.1.gz'', ''main/foo/foo.1.gz'']] \<and>
   droppedJobs (trace exStaleDone) = [] \<and>
   mset (sentJobs (trace exStaleDone)) + mset (droppedJobs (trace exStaleDone)) =
     mset (staleJobs exStaleWorld exGv) \<and>
   (\<exists>w. Sent w (exJob ''foo.1'' [''testing/foo/foo.1.gz'', ''main/foo/foo.1.gz''])
           \<in> set (trace exStaleDone) \<and>
        RenderedManpage w (exJob ''foo.1'' [''testing/foo/foo.1.gz'', ''main/foo/foo.1.gz'']) None
           \<in> set (trace exStaleDone))"
proof -
  have r: "runs exStaleWorld exGv exStaleDone"
    unfolding exStaleWorld_def exStaleDone_def by (rule exConfig_runs)
  have d: "distinct (map Name exStaleFiles)" by code_simp
  have p1: "onlyRender exStaleWorld = []" by code_simp
  have f1: "isSource exFooDir (exFile ''foo.1.gz'' 100)" by code_simp
  have f2: "\<not> isSymlink (exFile ''foo.1.gz'' 100)" by code_simp
  have f3: "parsed exStaleWorld exFooDir (exFile ''foo.1.gz'' 100) = Inr ''main/foo/foo.1.gz''" by code_simp
  have f4: "htmlName (exFile ''foo.1.gz'' 100) \<notin> Name ` set exStaleFiles" by code_simp
  have b1: "isSource exFooDir (exFile ''bar.1.gz'' 50)" by code_simp
  have b2: "\<not> isSymlink (exFile ''bar.1.gz'' 50)" by code_simp
  have b3: "parsed exStaleWorld exFooDir (exFile ''bar.1.gz'' 50) = Inr ''main/foo/bar.1.gz''" by code_simp
  have b4: "\<not> (htmlName (exFile ''bar.1.gz'' 50) \<notin> Name ` set exStaleFiles \<or>
         (\<exists>html \<in> set exStaleFiles. Name html = htmlName (exFile ''bar.1.gz'' 50) \<and>
            Before (ModTime html) (ModTime (exFile ''bar.1.gz'' 50))))" by code_simp
  have ev: "concat (map (\<lambda>f. case parsed exStaleWorld exFooDir f of Inl _ \<Rightarrow> []
                             | Inr m \<Rightarrow> [jobFor exStaleWorld exGv exFooDir f m])
       (filter (\<lambda>f. isSource exFooDir f \<and> \<not> isSymlink f \<and> needsRender (fileByNameOf exStaleFiles) f)
          exStaleFiles)) =
     [\<lparr> dest = ''/srv/man/main/foo/foo.1.html.gz'', src = ''/srv/man/main/foo/foo.1.gz'',
        meta = ''main/foo/foo.1.gz'',
        versions = [''testing/foo/foo.1.gz'', ''main/foo/foo.1.gz''],
        jxref = [(''foo.1'', [''testing/foo/foo.1.gz'', ''main/foo/foo.1.gz''])] \<rparr>]" by code_simp
  have p: "pc exStaleDone = Returned None" by (simp add: exStaleDone_eval)
  have l: "list_ex isClosedChan (trace exStaleDone)" by (simp add: exStaleDone_eval event_simps)
  have e: "firstRenderError (trace exStaleDone) = None" by (simp add: exStaleDone_eval)
  have s: "sentJobs (trace exStaleDone) =
      [exJob ''foo.1'' [''testing/foo/foo.1.gz'', ''main/foo/foo.1.gz'']]"
    by (simp add: exStaleDone_eval)
  have m: "exJob ''foo.1'' [''testing/foo/foo.1.gz'', ''main/foo/foo.1.gz'']
      \<in> set (staleJobs exStaleWorld exGv)" by (simp add: exStale_staleJobs)
  note tf = render_job_emission[OF r, where dir=exFooDir and f="exFile ''foo.1.gz'' 100"
      and files=exStaleFiles]
  note tb = render_job_emission[OF r, where dir=exFooDir and f="exFile ''bar.1.gz'' 50"
      and files=exStaleFiles]
  from tf d f4 have n1: "needsRender (fileByNameOf exStaleFiles) (exFile ''foo.1.gz'' 100)" by blast
  from tb d b4 have n2: "\<not> needsRender (fileByNameOf exStaleFiles) (exFile ''bar.1.gz'' 50)" by blast
  from tf p1 have "\<not> skippedDir exStaleWorld exFooDir" by blast
  with tf ev have o: "dirJobs exStaleWorld exGv (exFooDir, exStaleFiles) =
     [\<lparr> dest = ''/srv/man/main/foo/foo.1.html.gz'', src = ''/srv/man/main/foo/foo.1.gz'',
        meta = ''main/foo/foo.1.gz'',
        versions = [''testing/foo/foo.1.gz'', ''main/foo/foo.1.gz''],
        jxref = [(''foo.1'', [''testing/foo/foo.1.gz'', ''main/foo/foo.1.gz''])] \<rparr>]" by simp
  from tf e have dr: "droppedJobs (trace exStaleDone) = []" by blast
  from tf l have eq: "mset (sentJobs (trace exStaleDone)) + mset (droppedJobs (trace exStaleDone)) =
     mset (staleJobs exStaleWorld exGv)" by blast
  from tf p m have rd: "\<exists>w. Sent w (exJob ''foo.1'' [''testing/foo/foo.1.gz'', ''main/foo/foo.1.gz''])
           \<in> set (trace exStaleDone) \<and>
        RenderedManpage w (exJob ''foo.1'' [''testing/foo/foo.1.gz'', ''main/foo/foo.1.gz'']) None
           \<in> set (trace exStaleDone)" by blast
  from r d f1 f2 f3 f4 n1 b1 b2 b3 n2 p1 o exStale_staleJobs p l e s dr eq rd show ?thesis by blast
qed

text \<open>The claim as stated fails on the package with two pages when rendering
  \<^verbatim>\<open>foo.1\<close> fails: \<^verbatim>\<open>foo.2.gz\<close> is a compressed source that parses and has no
  rendered page, but after worker 0's call has returned the error the \<^verbatim>\<open>select\<close>
  takes \<^verbatim>\<open>ctx.Done()\<close>; the pass returns without the job for \<^verbatim>\<open>foo.2\<close> ever
  being handed to a worker.\<close>

theorem stale_source_dropped:
  "runs exTwoWorld exGv exDropped \<and>
   readDir exTwoWorld exFooDir = Inr exTwoFiles \<and>
   isSource exFooDir (exFile ''foo.2.gz'' 100) \<and> \<not> isSymlink (exFile ''foo.2.gz'' 100) \<and>
   parsed exTwoWorld exFooDir (exFile ''foo.2.gz'' 100) = Inr ''main/foo/foo.2.gz'' \<and>
   htmlName (exFile ''foo.2.gz'' 100) \<notin> Name ` set exTwoFiles \<and>
   needsRender (fileByNameOf exTwoFiles) (exFile ''foo.2.gz'' 100) \<and>
   jobFor exTwoWorld exGv exFooDir (exFile ''foo.2.gz'' 100) ''main/foo/foo.2.gz'' = exJob ''foo.2'' [] \<and>
   trace exDropped =
     [Sent 0 (exJob ''foo.1'' [''testing/foo/foo.1.gz'', ''main/foo/foo.1.gz'']),
      RenderedManpage 0 (exJob ''foo.1'' [''testing/foo/foo.1.gz'', ''main/foo/foo.1.gz''])
        (Some ''write /srv/man/main/foo/foo.1.html.gz: no space left on device''),
      Skipped (exJob ''foo.2'' []),
      RenderedPkgindex ''/srv/man/main/foo/index.html.gz''
        [(''foo.1.gz'', ''main/foo/foo.1.gz''), (''foo.2.gz'', ''main/foo/foo.2.gz'')] None,
      ClosedChan,
      Waited (Some ''write /srv/man/main/foo/foo.1.html.gz: no space left on device'')] \<and>
   pc exDropped = Returned (Some ''write /srv/man/main/foo/foo.1.html.gz: no space left on device'') \<and>
   sentJobs (trace exDropped) = [exJob ''foo.1'' [''testing/foo/foo.1.gz'', ''main/foo/foo.1.gz'']] \<and>
   droppedJobs (trace exDropped) = [exJob ''foo.2'' []]"
proof -
  have r: "runs exTwoWorld exGv exDropped"
    unfolding exTwoWorld_def exDropped_def by (rule exConfig_runs)
  have d: "readDir exTwoWorld exFooDir = Inr exTwoFiles" by code_simp
  have f1: "isSource exFooDir (exFile ''foo.2.gz'' 100)" by code_simp
  have f2: "\<not> isSymlink (exFile ''foo.2.gz'' 100)" by code_simp
  have f3: "parsed exTwoWorld exFooDir (exFile ''foo.2.gz'' 100) = Inr ''main/foo/foo.2.gz''"
    by code_simp
  have f4: "htmlName (exFile ''foo.2.gz'' 100) \<notin> Name ` set exTwoFiles" by code_simp
  have f5: "needsRender (fileByNameOf exTwoFiles) (exFile ''foo.2.gz'' 100)" by code_simp
  have f6: "jobFor exTwoWorld exGv exFooDir (exFile ''foo.2.gz'' 100) ''main/foo/foo.2.gz'' =
      exJob ''foo.2'' []" by code_simp
  have s: "sentJobs (trace exDropped) =
      [exJob ''foo.1'' [''testing/foo/foo.1.gz'', ''main/foo/foo.1.gz'']] \<and>
      droppedJobs (trace exDropped) = [exJob ''foo.2'' []]"
    by (simp add: exDropped_eval)
  from r d f1 f2 f3 f4 f5 f6 s exDropped_eval show ?thesis by blast
qed

section \<open>C5: when the index page of a directory is rebuilt\<close>



section \<open>C6: a worker's render call fails\<close>

text \<open>
  Claim C6 says that after a worker's call of \<^verbatim>\<open>rendermanpage\<close> has returned an error
  no job is dispatched any more and the pass returns that first error. Neither holds in
  every run. The workers do not look at the context (line 127), and the \<^verbatim>\<open>select\<close> of
  lines 206 to 216 may still send to a waiting worker once the context is done; its
  \<^verbatim>\<open>break\<close> leaves the \<^verbatim>\<open>select\<close> only, so the scan goes on. And a failing
  \<^verbatim>\<open>renderPkgindex\<close> in the rest of the scan returns its own error (line 225).

  As amended: the error the group records, which cancels the context, is the error of the
  first call of \<^verbatim>\<open>rendermanpage\<close> that failed; the worker whose call failed is sent
  no further job; once a call has failed no listing page is rendered and the pass does not
  return \<^verbatim>\<open>nil\<close>: it returns that first error, or else the error of a later failing
  \<^verbatim>\<open>renderPkgindex\<close>; and once the context is done the producer can always go past
  the job it is offering.
\<close>

theorem worker_failure:
  assumes "runs W gv c"
  shows "ctxErr c = firstRenderError (trace c) \<and>
         (\<forall>w. precedes (isSentTo w) (isFailureOf w) (trace c)) \<and>
         (firstRenderError (trace c) \<noteq> None \<longrightarrow>
            \<not> list_ex isRenderedContents (trace c) \<and> pc c \<noteq> Returned None) \<and>
         (\<forall>r err. pc c = Returned r \<and> firstRenderError (trace c) = Some err \<longrightarrow>
            r = Some err \<or>
            (\<exists>d m e. r = Some e \<and> renderPkgindex W d m = Some e \<and>
               RenderedPkgindex d m (Some e) \<in> set (trace c))) \<and>
         (\<forall>j rest. pc c = Scanning \<and> cur c = Offer j # rest \<and> ctxErr c \<noteq> None \<longrightarrow>
            c\<lparr> cur := rest, trace := trace c @ [Skipped j] \<rparr> \<in> set (renderAllSteps W gv c))"
proof -
  note first = ctxErr_inv[OF assms]
  have stop: "\<forall>w. precedes (isSentTo w) (isFailureOf w) (trace c)"
    using failed_worker_inv[OF assms] by blast
  have nolist: "\<not> list_ex isRenderedContents (trace c) \<and> pc c \<noteq> Returned None"
    if f: "firstRenderError (trace c) \<noteq> None"
  proof (rule ccontr)
    assume "\<not> (\<not> list_ex isRenderedContents (trace c) \<and> pc c \<noteq> Returned None)"
    then have "(\<exists>ss. pc c = Listing ss) \<or> pc c = Returned None \<or> list_ex isRenderedContents (trace c)"
      by blast
    with assms have "ctxErr c = None" by (blast dest: settled_inv)
    with first f show False by simp
  qed
  have result: "r = Some err \<or>
            (\<exists>d m e. r = Some e \<and> renderPkgindex W d m = Some e \<and>
               RenderedPkgindex d m (Some e) \<in> set (trace c))"
    if p: "pc c = Returned r" and f: "firstRenderError (trace c) = Some err" for r err
  proof -
    from f have fn: "firstRenderError (trace c) \<noteq> None" by simp
    note nl = nolist[OF fn]
    from returned_result[OF assms p] consider
        (none) "r = None"
      | (gather) e where "r = Some e" "trace c = []"
      | (index) e d m where "r = Some e" "renderPkgindex W d m = Some e"
          "RenderedPkgindex d m (Some e) \<in> set (trace c)"
      | (worker) e where "r = Some e" "firstRenderError (trace c) = Some e"
      | (contents) e d s b where "r = Some e" "RenderedContents d s b (Some e) \<in> set (trace c)"
      by blast
    then show ?thesis
    proof cases
      case none
      with p nl show ?thesis by simp
    next
      case gather
      with f show ?thesis by simp
    next
      case index
      then show ?thesis by blast
    next
      case worker
      with f show ?thesis by simp
    next
      case contents
      then have "list_ex isRenderedContents (trace c)" by (simp add: contents_in_trace)
      with nl show ?thesis by simp
    qed
  qed
  have skip: "c\<lparr> cur := rest, trace := trace c @ [Skipped j] \<rparr> \<in> set (renderAllSteps W gv c)"
    if "pc c = Scanning" "cur c = Offer j # rest" "ctxErr c \<noteq> None" for j rest
    using that by (auto simp add: renderAllSteps_def producerSteps_def offerSteps_def)
  from first stop nolist result skip show ?thesis by blast
qed

theorem worker_failure_witness:
  "runs exTwoWorld exGv exFailedDone \<and>
   firstRenderError (trace exFailedDone) =
     Some ''write /srv/man/main/foo/foo.1.html.gz: no space left on device'' \<and>
   ctxErr exFailedDone = Some ''write /srv/man/main/foo/foo.1.html.gz: no space left on device'' \<and>
   pc exFailedDone = Returned (Some ''write /srv/man/main/foo/foo.1.html.gz: no space left on device'') \<and>
   precedes (isSentTo 0) (isFailureOf 0) (trace exFailedDone) \<and>
   \<not> list_ex isRenderedContents (trace exFailedDone)"
proof -
  have r: "runs exTwoWorld exGv exFailedDone"
    unfolding exTwoWorld_def exFailedDone_def by (rule exConfig_runs)
  have f: "firstRenderError (trace exFailedDone) =
     Some ''write /srv/man/main/foo/foo.1.html.gz: no space left on device''"
    by (simp add: exFailedDone_eval)
  from worker_failure[OF r] f r exFailedDone_eval show ?thesis by auto
qed

text \<open>The claim as stated fails on the package with two pages when rendering
  \<^verbatim>\<open>foo.1\<close> fails: after worker 0's call has returned the error and the context is
  done, the job for \<^verbatim>\<open>foo.2\<close> is sent to worker 1, which renders it.\<close>

theorem job_sent_after_failure:
  "runs exTwoWorld exGv exAfterFailure \<and>
   trace exAfterFailure =
     [Sent 0 (exJob ''foo.1'' [''testing/foo/foo.1.gz'', ''main/foo/foo.1.gz'']),
      RenderedManpage 0 (exJob ''foo.1'' [''testing/foo/foo.1.gz'', ''main/foo/foo.1.gz''])
        (Some ''write /srv/man/main/foo/foo.1.html.gz: no space left on device''),
      Sent 1 (exJob ''foo.2'' [])] \<and>
   ctxErr exAfterFailure = Some ''write /srv/man/main/foo/foo.1.html.gz: no space left on device'' \<and>
   RenderedManpage 1 (exJob ''foo.2'' []) None \<in> set (trace exFailedDone)"
proof -
  have r: "runs exTwoWorld exGv exAfterFailure"
    unfolding exTwoWorld_def exAfterFailure_def by (rule exConfig_runs)
  have l: "RenderedManpage 1 (exJob ''foo.2'' []) None \<in> set (trace exFailedDone)"
    by (simp add: exFailedDone_eval)
  from r l exAfterFailure_eval show ?thesis by blast
qed

section \<open>C7: errors of directory listings\<close>

text \<open>
  Claim C7. An error of \<^verbatim>\<open>ioutil.ReadDir\<close> on the serving directory, on the directory
  of a known suite or on an entry of a suite directory makes the inventory fail, whatever
  else the tree holds: no such entry is skipped. The error is that of the first listing
  that fails, in the order of the two loops. When the inventory fails, the pass returns
  its error at once: no worker is started, no step follows, so no job is offered and no
  index or listing page is rendered.
\<close>

theorem listing_error_is_fatal:
  "(readDir W (servingDir W) = Inl err \<longrightarrow> gatherContents W gv = Inl err) \<and>
   (readDir W (servingDir W) = Inr suitedirs \<and> sfi \<in> set suitedirs \<and> IsDir sfi \<and>
    suiteKnown gv (Name sfi) \<and>
    readDir W (filepathJoin [servingDir W, Name sfi]) = Inl err \<longrightarrow>
      (\<exists>e. gatherContents W gv = Inl e)) \<and>
   (readDir W (servingDir W) = Inr suitedirs \<and> sfi \<in> set suitedirs \<and> IsDir sfi \<and>
    suiteKnown gv (Name sfi) \<and>
    readDir W (filepathJoin [servingDir W, Name sfi]) = Inr bins \<and> bfi \<in> set bins \<and>
    readDir W (filepathJoin [servingDir W, Name sfi, Name bfi]) = Inl err \<longrightarrow>
      (\<exists>e. gatherContents W gv = Inl e)) \<and>
   (readDir W (servingDir W) = Inr (pre @ sfi # post) \<and>
    gatherSuites W gv pre ([], []) = Inr acc \<and> IsDir sfi \<and> suiteKnown gv (Name sfi) \<and>
    readDir W (filepathJoin [servingDir W, Name sfi]) = Inl err \<longrightarrow>
      gatherContents W gv = Inl err) \<and>
   (readDir W (servingDir W) = Inr (pre @ sfi # post) \<and>
    gatherSuites W gv pre ([], []) = Inr (contents, bbs) \<and> IsDir sfi \<and>
    suiteKnown gv (Name sfi) \<and>
    readDir W (filepathJoin [servingDir W, Name sfi]) = Inr (preb @ bfi # postb) \<and>
    gatherBins W (Name sfi) preb contents = Inr contents' \<and>
    readDir W (filepathJoin [servingDir W, Name sfi, Name bfi]) = Inl err \<longrightarrow>
      gatherContents W gv = Inl err) \<and>
   (gatherContents W gv = Inl e \<longrightarrow>
      (\<exists>path. readDir W path = Inl e) \<and>
      renderAllSteps W gv (renderAllStart W gv) = [] \<and>
      (\<forall>c. runs W gv c \<longrightarrow> pc c = Returned (Some e) \<and> trace c = [] \<and> workers c = []))"
proof -
  have root: "readDir W (servingDir W) = Inl err \<longrightarrow> gatherContents W gv = Inl err"
    by (simp add: gatherContents_def)
  have suite: "\<exists>e. gatherContents W gv = Inl e"
    if "readDir W (servingDir W) = Inr suitedirs" "sfi \<in> set suitedirs" "IsDir sfi"
      "suiteKnown gv (Name sfi)" "readDir W (filepathJoin [servingDir W, Name sfi]) = Inl err"
  proof -
    from that(2-5) have "\<exists>e. gatherSuites W gv suitedirs ([], []) = Inl e"
      by (intro gatherSuites_fail[of sfi]) simp_all
    with that(1) show ?thesis by (simp add: gatherContents_def)
  qed
  have pkg: "\<exists>e. gatherContents W gv = Inl e"
    if "readDir W (servingDir W) = Inr suitedirs" "sfi \<in> set suitedirs" "IsDir sfi"
      "suiteKnown gv (Name sfi)" "readDir W (filepathJoin [servingDir W, Name sfi]) = Inr bins"
      "bfi \<in> set bins" "readDir W (filepathJoin [servingDir W, Name sfi, Name bfi]) = Inl err"
  proof -
    from that(5-7) have "\<exists>bins bfi. readDir W (filepathJoin [servingDir W, Name sfi]) = Inr bins \<and>
       bfi \<in> set bins \<and> (\<exists>err. readDir W (filepathJoin [servingDir W, Name sfi, Name bfi]) = Inl err)"
      by blast
    with that(2-4) have "\<exists>e. gatherSuites W gv suitedirs ([], []) = Inl e"
      by (intro gatherSuites_fail[of sfi]) simp_all
    with that(1) show ?thesis by (simp add: gatherContents_def)
  qed
  have fatal: "(\<exists>path. readDir W path = Inl e) \<and>
      renderAllSteps W gv (renderAllStart W gv) = [] \<and>
      (\<forall>c. runs W gv c \<longrightarrow> pc c = Returned (Some e) \<and> trace c = [] \<and> workers c = [])"
    if g: "gatherContents W gv = Inl e"
  proof -
    from g have st: "renderAllStart W gv =
        \<lparr> todo = [], cur = [], workers = [], ctxErr = None, binsBySuite = [],
          pc = Returned (Some e), trace = [] \<rparr>"
      by (simp add: renderAllStart_def)
    then have p: "pc (renderAllStart W gv) = Returned (Some e)" by simp
    have "pc c = Returned (Some e) \<and> trace c = [] \<and> workers c = []" if "runs W gv c" for c
    proof -
      from that p have "c = renderAllStart W gv" by (rule returned_final)
      with st show ?thesis by simp
    qed
    then have "\<forall>c. runs W gv c \<longrightarrow> pc c = Returned (Some e) \<and> trace c = [] \<and> workers c = []"
      by blast
    moreover from p have "renderAllSteps W gv (renderAllStart W gv) = []"
      by (simp add: renderAllSteps_def)
    moreover from g have "\<exists>path. readDir W path = Inl e" by (rule gatherContents_error)
    ultimately show ?thesis by blast
  qed
  have first_suite: "gatherContents W gv = Inl err"
    if "readDir W (servingDir W) = Inr (pre @ sfi # post)"
      "gatherSuites W gv pre ([], []) = Inr acc" "IsDir sfi" "suiteKnown gv (Name sfi)"
      "readDir W (filepathJoin [servingDir W, Name sfi]) = Inl err"
  proof -
    obtain cs bs where "acc = (cs, bs)" by (cases acc)
    with that show ?thesis by (simp add: gatherContents_def gatherSuites_append)
  qed
  have first_pkg: "gatherContents W gv = Inl err"
    if "readDir W (servingDir W) = Inr (pre @ sfi # post)"
      "gatherSuites W gv pre ([], []) = Inr (contents, bbs)" "IsDir sfi" "suiteKnown gv (Name sfi)"
      "readDir W (filepathJoin [servingDir W, Name sfi]) = Inr (preb @ bfi # postb)"
      "gatherBins W (Name sfi) preb contents = Inr contents'"
      "readDir W (filepathJoin [servingDir W, Name sfi, Name bfi]) = Inl err"
    using that by (simp add: gatherContents_def gatherSuites_append gatherBins_append)
  from root suite pkg first_suite first_pkg fatal show ?thesis by blast
qed

theorem listing_error_is_fatal_witness:
  "readDir exDeniedWorld (servingDir exDeniedWorld) =
     Inr ([exFile ''README'' 5, exDir ''lost+found''] @ exDir ''main'' # []) \<and>
   gatherSuites exDeniedWorld exGv [exFile ''README'' 5, exDir ''lost+found''] ([], []) =
     Inr ([], []) \<and>
   IsDir (exDir ''main'') \<and> suiteKnown exGv (Name (exDir ''main'')) \<and>
   readDir exDeniedWorld (filepathJoin [servingDir exDeniedWorld, Name (exDir ''main'')]) =
     Inr ([] @ exDir ''foo'' # []) \<and>
   gatherBins exDeniedWorld (Name (exDir ''main'')) [] [] = Inr [] \<and>
   readDir exDeniedWorld
       (filepathJoin [servingDir exDeniedWorld, Name (exDir ''main''), Name (exDir ''foo'')]) =
     Inl ''open /srv/man/main/foo: permission denied'' \<and>
   gatherContents exDeniedWorld exGv = Inl ''open /srv/man/main/foo: permission denied'' \<and>
   runs exDeniedWorld exGv (renderAllStart exDeniedWorld exGv) \<and>
   pc (renderAllStart exDeniedWorld exGv) =
     Returned (Some ''open /srv/man/main/foo: permission denied'') \<and>
   trace (renderAllStart exDeniedWorld exGv) = [] \<and>
   renderAllSteps exDeniedWorld exGv (renderAllStart exDeniedWorld exGv) = []"
proof -
  have a: "readDir exDeniedWorld (servingDir exDeniedWorld) =
     Inr ([exFile ''README'' 5, exDir ''lost+found''] @ exDir ''main'' # [])" by code_simp
  have b: "gatherSuites exDeniedWorld exGv [exFile ''README'' 5, exDir ''lost+found''] ([], []) =
     Inr ([], [])" by code_simp
  have c: "IsDir (exDir ''main'')" by code_simp
  have d: "suiteKnown exGv (Name (exDir ''main''))" by code_simp
  have e: "readDir exDeniedWorld (filepathJoin [servingDir exDeniedWorld, Name (exDir ''main'')]) =
     Inr ([] @ exDir ''foo'' # [])" by code_simp
  have f: "gatherBins exDeniedWorld (Name (exDir ''main'')) [] [] = Inr []" by simp
  have g: "readDir exDeniedWorld
       (filepathJoin [servingDir exDeniedWorld, Name (exDir ''main''), Name (exDir ''foo'')]) =
     Inl ''open /srv/man/main/foo: permission denied''" by code_simp
  note t = listing_error_is_fatal[where W=exDeniedWorld and gv=exGv and sfi="exDir ''main''"
      and pre="[exFile ''README'' 5, exDir ''lost+found'']" and post="[]" and acc="([], [])"
      and contents="[]" and bbs="[]" and preb="[]" and bfi="exDir ''foo''" and postb="[]"
      and contents'="[]" and err="''open /srv/man/main/foo: permission denied''"
      and e="''open /srv/man/main/foo: permission denied''"]
  from t a b c d e f g
  have h: "gatherContents exDeniedWorld exGv = Inl ''open /srv/man/main/foo: permission denied''"
    by blast
  have r: "runs exDeniedWorld exGv (renderAllStart exDeniedWorld exGv)" by (rule runs.start)
  from t h r have "pc (renderAllStart exDeniedWorld exGv) =
     Returned (Some ''open /srv/man/main/foo: permission denied'') \<and>
   trace (renderAllStart exDeniedWorld exGv) = [] \<and>
   renderAllSteps exDeniedWorld exGv (renderAllStart exDeniedWorld exGv) = []" by blast
  with a b c d e f g h r show ?thesis by blast
qed

section \<open>C8: a serving path that does not parse\<close>

text \<open>
  Claim C8. When \<^verbatim>\<open>manpage.FromServingPath\<close> fails on a compressed source that is no
  symbolic link, the loop body logs the failure and goes on with the next entry: it
  offers no job and enters nothing into \<^verbatim>\<open>manpageByName\<close>; the producer's step at the
  logging is to log and go on with the rest of the loop body. An error the pass returns
  is an error returned by \<^verbatim>\<open>ioutil.ReadDir\<close>, \<^verbatim>\<open>rendermanpage\<close>,
  \<^verbatim>\<open>renderPkgindex\<close> or \<^verbatim>\<open>renderContents\<close>, never one that only the parser
  returned; a pass with such an entry can return \<^verbatim>\<open>nil\<close>.
\<close>

theorem parse_failure_absorbed:
  "(isSource dir f \<and> \<not> isSymlink f \<and> parsed W dir f = Inl err \<longrightarrow>
      scanFiles W gv dir fbn imt (f # fs) st =
        scanFiles W gv dir fbn imt fs
          (st\<lparr> indexNeedsUpdate := indexNeedsUpdate st \<or> After (ModTime f) imt,
               body := body st @ [Warn (filepathJoin [dir, Name f]) err] \<rparr>)) \<and>
   (cur c = Warn p err # rest \<longrightarrow>
      producerSteps W gv c = [c\<lparr> cur := rest, trace := trace c @ [Warned p err] \<rparr>]) \<and>
   (runs W gv c \<and> pc c = Returned (Some e) \<longrightarrow>
      (\<exists>path. readDir W path = Inl e) \<or> (\<exists>j. rendermanpage W j = Some e) \<or>
      (\<exists>d m. renderPkgindex W d m = Some e) \<or> (\<exists>d s b. renderContents W d s b = Some e))"
proof -
  have skip: "isSource dir f \<and> \<not> isSymlink f \<and> parsed W dir f = Inl err \<longrightarrow>
      scanFiles W gv dir fbn imt (f # fs) st =
        scanFiles W gv dir fbn imt fs
          (st\<lparr> indexNeedsUpdate := indexNeedsUpdate st \<or> After (ModTime f) imt,
               body := body st @ [Warn (filepathJoin [dir, Name f]) err] \<rparr>)"
    by (simp add: scanFiles_Cons scanFile_unparsed)
  have log: "cur c = Warn p err # rest \<longrightarrow>
      producerSteps W gv c = [c\<lparr> cur := rest, trace := trace c @ [Warned p err] \<rparr>]"
    by (simp add: producerSteps_def)
  have result: "(\<exists>path. readDir W path = Inl e) \<or> (\<exists>j. rendermanpage W j = Some e) \<or>
      (\<exists>d m. renderPkgindex W d m = Some e) \<or> (\<exists>d s b. renderContents W d s b = Some e)"
    if r: "runs W gv c" and p: "pc c = Returned (Some e)"
  proof -
    from returned_result[OF r p] consider
        (gather) "gatherContents W gv = Inl e"
      | (index) d m where "renderPkgindex W d m = Some e"
      | (worker) "firstRenderError (trace c) = Some e"
      | (contents) d s b where "renderContents W d s b = Some e"
      by auto
    then show ?thesis
    proof cases
      case gather
      then have "\<exists>path. readDir W path = Inl e" by (rule gatherContents_error)
      then show ?thesis by blast
    next
      case index
      then show ?thesis by blast
    next
      case worker
      then obtain w j where "RenderedManpage w j (Some e) \<in> set (trace c)"
        by (blast dest: firstRenderError_Some)
      with r have "Some e = rendermanpage W j" by (rule truthful_manpage)
      then have "rendermanpage W j = Some e" by simp
      then show ?thesis by blast
    next
      case contents
      then show ?thesis by blast
    qed
  qed
  from skip log result show ?thesis by blast
qed

theorem parse_failure_absorbed_witness:
  "isSource exFooDir (exFile ''odd.x.gz'' 70) \<and> \<not> isSymlink (exFile ''odd.x.gz'' 70) \<and>
   parsed exStaleWorld exFooDir (exFile ''odd.x.gz'' 70) = Inl ''unexpected section'' \<and>
   scanFiles exStaleWorld exGv exFooDir (fileByNameOf exStaleFiles) (indexModTimeOf exStaleFiles)
       [exFile ''odd.x.gz'' 70] \<lparr> manpageByName = [], indexNeedsUpdate = False, body = [] \<rparr> =
     \<lparr> manpageByName = [], indexNeedsUpdate = True,
       body = [Warn ''/srv/man/main/foo/odd.x.gz'' ''unexpected section''] \<rparr> \<and>
   runs exStaleWorld exGv exStaleDone \<and>
   Warned ''/srv/man/main/foo/odd.x.gz'' ''unexpected section'' \<in> set (trace exStaleDone) \<and>
   pc exStaleDone = Returned None \<and>
   runs exTwoWorld exGv exFailedDone \<and>
   pc exFailedDone = Returned (Some ''write /srv/man/main/foo/foo.1.html.gz: no space left on device'') \<and>
   ((\<exists>path. readDir exTwoWorld path =
        Inl ''write /srv/man/main/foo/foo.1.html.gz: no space left on device'') \<or>
    (\<exists>j. rendermanpage exTwoWorld j =
        Some ''write /srv/man/main/foo/foo.1.html.gz: no space left on device'') \<or>
    (\<exists>d m. renderPkgindex exTwoWorld d m =
        Some ''write /srv/man/main/foo/foo.1.html.gz: no space left on device'') \<or>
    (\<exists>d s b. renderContents exTwoWorld d s b =
        Some ''write /srv/man/main/foo/foo.1.html.gz: no space left on device''))"
proof -
  have a: "isSource exFooDir (exFile ''odd.x.gz'' 70)" by code_simp
  have b: "\<not> isSymlink (exFile ''odd.x.gz'' 70)" by code_simp
  have c: "parsed exStaleWorld exFooDir (exFile ''odd.x.gz'' 70) = Inl ''unexpected section''"
    by code_simp
  have t: "After (ModTime (exFile ''odd.x.gz'' 70)) (indexModTimeOf exStaleFiles)" by code_simp
  have j: "filepathJoin [exFooDir, Name (exFile ''odd.x.gz'' 70)] = ''/srv/man/main/foo/odd.x.gz''"
    by code_simp
  note th = parse_failure_absorbed[of exFooDir "exFile ''odd.x.gz'' 70" exStaleWorld
      "''unexpected section''" exGv "fileByNameOf exStaleFiles" "indexModTimeOf exStaleFiles" "[]"
      "\<lparr> manpageByName = [], indexNeedsUpdate = False, body = [] \<rparr>"]
  from th a b c have "scanFiles exStaleWorld exGv exFooDir (fileByNameOf exStaleFiles)
       (indexModTimeOf exStaleFiles) [exFile ''odd.x.gz'' 70]
       \<lparr> manpageByName = [], indexNeedsUpdate = False, body = [] \<rparr> =
     scanFiles exStaleWorld exGv exFooDir (fileByNameOf exStaleFiles) (indexModTimeOf exStaleFiles) []
       (\<lparr> manpageByName = [], indexNeedsUpdate = False, body = [] \<rparr>
          \<lparr> indexNeedsUpdate := False \<or> After (ModTime (exFile ''odd.x.gz'' 70)) (indexModTimeOf exStaleFiles),
            body := [] @ [Warn (filepathJoin [exFooDir, Name (exFile ''odd.x.gz'' 70)]) ''unexpected section''] \<rparr>)"
    by simp
  with t j have s: "scanFiles exStaleWorld exGv exFooDir (fileByNameOf exStaleFiles)
       (indexModTimeOf exStaleFiles) [exFile ''odd.x.gz'' 70]
       \<lparr> manpageByName = [], indexNeedsUpdate = False, body = [] \<rparr> =
     \<lparr> manpageByName = [], indexNeedsUpdate = True,
       body = [Warn ''/srv/man/main/foo/odd.x.gz'' ''unexpected section''] \<rparr>"
    by (simp add: scanFiles_Nil)
  have r1: "runs exStaleWorld exGv exStaleDone"
    unfolding exStaleWorld_def exStaleDone_def by (rule exConfig_runs)
  have w: "Warned ''/srv/man/main/foo/odd.x.gz'' ''unexpected section'' \<in> set (trace exStaleDone)"
    by (simp add: exStaleDone_eval)
  have p1: "pc exStaleDone = Returned None" by (simp add: exStaleDone_eval)
  have r2: "runs exTwoWorld exGv exFailedDone"
    unfolding exTwoWorld_def exFailedDone_def by (rule exConfig_runs)
  have p2: "pc exFailedDone = Returned (Some ''write /srv/man/main/foo/foo.1.html.gz: no space left on device'')"
    by (simp add: exFailedDone_eval)
  note th2 = parse_failure_absorbed[of _ _ exTwoWorld _ exGv _ _ _ _ exFailedDone _ _
      "''write /srv/man/main/foo/foo.1.html.gz: no space left on device''"]
  from th2 r2 p2 have d: "(\<exists>path. readDir exTwoWorld path =
        Inl ''write /srv/man/main/foo/foo.1.html.gz: no space left on device'') \<or>
    (\<exists>j. rendermanpage exTwoWorld j =
        Some ''write /srv/man/main/foo/foo.1.html.gz: no space left on device'') \<or>
    (\<exists>d m. renderPkgindex exTwoWorld d m =
        Some ''write /srv/man/main/foo/foo.1.html.gz: no space left on device'') \<or>
    (\<exists>d s b. renderContents exTwoWorld d s b =
        Some ''write /srv/man/main/foo/foo.1.html.gz: no space left on device'')" by blast
  from a b c s r1 w p1 r2 p2 d show ?thesis by blast
qed

section \<open>C9: symbolic links\<close>

text \<open>
  Claim C9. An entry whose mode has the \<^verbatim>\<open>ModeSymlink\<close> bit leaves the state of the scan
  as it was, whatever its modification time: no job is offered for it, it does not set
  \<^verbatim>\<open>indexNeedsUpdate\<close>, and its name is not entered into \<^verbatim>\<open>manpageByName\<close>, the map
  handed to \<^verbatim>\<open>renderPkgindex\<close>. The scan of a listing gives what the scan of the listing
  without its symbolic links gives; every job offered and every setting of the flag comes
  from an entry that is no symbolic link.
\<close>

theorem symlink_exclusion:
  "(isSymlink f \<longrightarrow> scanFile W gv dir fbn imt f st = st) \<and>
   scanFiles W gv dir fbn imt files st =
     scanFiles W gv dir fbn imt (filter (\<lambda>f. \<not> isSymlink f) files) st \<and>
   (\<forall>j \<in> set (offered (dirBody W gv dir files)).
      \<exists>g \<in> set files. \<not> isSymlink g \<and> src j = filepathJoin [dir, Name g]) \<and>
   (indexNeedsUpdate (scanDir W gv dir files) \<longrightarrow>
      (\<exists>g \<in> set files. \<not> isSymlink g \<and> After (ModTime g) (indexModTimeOf files))) \<and>
   (distinct (map Name files) \<and> f \<in> set files \<and> isSymlink f \<longrightarrow>
      Name f \<notin> fst ` set (manpageByName (scanDir W gv dir files)))"
proof -
  have one: "isSymlink f \<longrightarrow> scanFile W gv dir fbn imt f st = st"
    by (simp add: scanFile_skip)
  have all: "scanFiles W gv dir fbn imt files st =
     scanFiles W gv dir fbn imt (filter (\<lambda>f. \<not> isSymlink f) files) st"
    by (induction files arbitrary: st) (simp_all add: scanFiles_Nil scanFiles_Cons scanFile_skip)
  have jobs: "\<forall>j \<in> set (offered (dirBody W gv dir files)).
      \<exists>g \<in> set files. \<not> isSymlink g \<and> src j = filepathJoin [dir, Name g]"
  proof
    fix j
    assume "j \<in> set (offered (dirBody W gv dir files))"
    then obtain g where g: "g \<in> set files" "isSource dir g" "\<not> isSymlink g"
      and j: "j \<in> set (case parsed W dir g of Inl _ \<Rightarrow> [] | Inr m \<Rightarrow> [jobFor W gv dir g m])"
      by (auto simp add: offered_dirBody split: if_splits)
    from j have "src j = filepathJoin [dir, Name g]"
      by (cases "parsed W dir g") (simp_all add: jobFor_def Let_def)
    with g show "\<exists>g \<in> set files. \<not> isSymlink g \<and> src j = filepathJoin [dir, Name g]" by blast
  qed
  have flag: "indexNeedsUpdate (scanDir W gv dir files) \<longrightarrow>
      (\<exists>g \<in> set files. \<not> isSymlink g \<and> After (ModTime g) (indexModTimeOf files))"
    by (auto simp add: scanDir_def indexNeedsUpdate_scanFiles)
  have keys: "distinct (map Name files) \<and> f \<in> set files \<and> isSymlink f \<longrightarrow>
      Name f \<notin> fst ` set (manpageByName (scanDir W gv dir files))"
  proof (intro impI notI, elim conjE)
    assume d: "distinct (map Name files)" and f: "f \<in> set files" and s: "isSymlink f"
      and "Name f \<in> fst ` set (manpageByName (scanDir W gv dir files))"
    then obtain g where g: "g \<in> set files" "\<not> isSymlink g" "Name f = Name g"
      by (auto simp add: keys_scanDir)
    from d f g(1,3) have "f = g" by (rule distinct_Name_eq)
    with s g(2) show False by simp
  qed
  from one all jobs flag keys show ?thesis by blast
qed

theorem symlink_exclusion_witness:
  "isSymlink (exLink ''link.1.gz'' 500) \<and>
   isSource exFooDir (exLink ''link.1.gz'' 500) \<and>
   After (ModTime (exLink ''link.1.gz'' 500)) (indexModTimeOf exStaleFiles) \<and>
   distinct (map Name exStaleFiles) \<and>
   exLink ''link.1.gz'' 500 \<in> set exStaleFiles \<and>
   scanFile exStaleWorld exGv exFooDir (fileByNameOf exStaleFiles) (indexModTimeOf exStaleFiles)
       (exLink ''link.1.gz'' 500) \<lparr> manpageByName = [], indexNeedsUpdate = False, body = [] \<rparr> =
     \<lparr> manpageByName = [], indexNeedsUpdate = False, body = [] \<rparr> \<and>
   Name (exLink ''link.1.gz'' 500) \<notin> fst ` set (manpageByName (scanDir exStaleWorld exGv exFooDir exStaleFiles))"
proof -
  have s: "isSymlink (exLink ''link.1.gz'' 500)" by code_simp
  have e: "isSource exFooDir (exLink ''link.1.gz'' 500)" by code_simp
  have a: "After (ModTime (exLink ''link.1.gz'' 500)) (indexModTimeOf exStaleFiles)" by code_simp
  have d: "distinct (map Name exStaleFiles)" by code_simp
  have i: "exLink ''link.1.gz'' 500 \<in> set exStaleFiles" by code_simp
  note t = symlink_exclusion[of "exLink ''link.1.gz'' 500" exStaleWorld exGv exFooDir
      "fileByNameOf exStaleFiles" "indexModTimeOf exStaleFiles"
      "\<lparr> manpageByName = [], indexNeedsUpdate = False, body = [] \<rparr>" exStaleFiles]
  from t s have one: "scanFile exStaleWorld exGv exFooDir (fileByNameOf exStaleFiles) (indexModTimeOf exStaleFiles)
       (exLink ''link.1.gz'' 500) \<lparr> manpageByName = [], indexNeedsUpdate = False, body = [] \<rparr> =
     \<lparr> manpageByName = [], indexNeedsUpdate = False, body = [] \<rparr>" by blast
  from t d i s have k: "Name (exLink ''link.1.gz'' 500) \<notin> fst ` set (manpageByName (scanDir exStaleWorld exGv exFooDir exStaleFiles))"
    by blast
  from s e a d i one k show ?thesis by blast
qed

section \<open>C10: a source that does not parse\<close>

text \<open>
  Claim C10. The comparison of a source's modification time with the index page's comes
  before the call of \<^verbatim>\<open>manpage.FromServingPath\<close>: a compressed source that is no
  symbolic link and does not parse still sets \<^verbatim>\<open>indexNeedsUpdate\<close> when it is newer
  than the index page, so the index page is rendered, but its name is not a key of the
  map \<^verbatim>\<open>manpageByName\<close> the index page is rendered from.
\<close>

theorem unparsed_entry_marks_index:
  "(isSource dir f \<and> \<not> isSymlink f \<and> parsed W dir f = Inl err \<longrightarrow>
      scanFile W gv dir fbn imt f st =
        st\<lparr> indexNeedsUpdate := indexNeedsUpdate st \<or> After (ModTime f) imt,
            body := body st @ [Warn (filepathJoin [dir, Name f]) err] \<rparr>) \<and>
   (f \<in> set files \<and> isSource dir f \<and> \<not> isSymlink f \<and> parsed W dir f = Inl err \<and>
    After (ModTime f) (indexModTimeOf files) \<longrightarrow>
      indexNeedsUpdate (scanDir W gv dir files) \<and>
      Pkgindex (filepathJoin [dir, ''index.html.gz'']) (manpageByName (scanDir W gv dir files))
        \<in> set (dirBody W gv dir files)) \<and>
   (distinct (map Name files) \<and> f \<in> set files \<and> isSource dir f \<and> \<not> isSymlink f \<and>
    parsed W dir f = Inl err \<longrightarrow>
      Name f \<notin> fst ` set (manpageByName (scanDir W gv dir files)))"
proof -
  have one: "isSource dir f \<and> \<not> isSymlink f \<and> parsed W dir f = Inl err \<longrightarrow>
      scanFile W gv dir fbn imt f st =
        st\<lparr> indexNeedsUpdate := indexNeedsUpdate st \<or> After (ModTime f) imt,
            body := body st @ [Warn (filepathJoin [dir, Name f]) err] \<rparr>"
    by (simp add: scanFile_unparsed)
  have mark: "f \<in> set files \<and> isSource dir f \<and> \<not> isSymlink f \<and> parsed W dir f = Inl err \<and>
    After (ModTime f) (indexModTimeOf files) \<longrightarrow>
      indexNeedsUpdate (scanDir W gv dir files) \<and>
      Pkgindex (filepathJoin [dir, ''index.html.gz'']) (manpageByName (scanDir W gv dir files))
        \<in> set (dirBody W gv dir files)"
  proof (intro impI, elim conjE)
    assume "f \<in> set files" "isSource dir f" "\<not> isSymlink f" "After (ModTime f) (indexModTimeOf files)"
    then have "indexNeedsUpdate (scanDir W gv dir files)"
      by (auto simp add: scanDir_def indexNeedsUpdate_scanFiles)
    then show "indexNeedsUpdate (scanDir W gv dir files) \<and>
      Pkgindex (filepathJoin [dir, ''index.html.gz'']) (manpageByName (scanDir W gv dir files))
        \<in> set (dirBody W gv dir files)"
      by (simp add: dirBody_def Let_def)
  qed
  have keys: "distinct (map Name files) \<and> f \<in> set files \<and> isSource dir f \<and> \<not> isSymlink f \<and>
    parsed W dir f = Inl err \<longrightarrow>
      Name f \<notin> fst ` set (manpageByName (scanDir W gv dir files))"
  proof (intro impI notI, elim conjE)
    assume d: "distinct (map Name files)" and f: "f \<in> set files" and p: "parsed W dir f = Inl err"
      and "Name f \<in> fst ` set (manpageByName (scanDir W gv dir files))"
    then obtain g m where g: "g \<in> set files" "parsed W dir g = Inr m" "Name f = Name g"
      by (auto simp add: keys_scanDir)
    from d f g(1,3) have "f = g" by (rule distinct_Name_eq)
    with p g(2) show False by simp
  qed
  from one mark keys show ?thesis by blast
qed

theorem unparsed_entry_marks_index_witness:
  "exFile ''odd.x.gz'' 70 \<in> set exOddFiles \<and>
   distinct (map Name exOddFiles) \<and>
   isSource exFooDir (exFile ''odd.x.gz'' 70) \<and>
   \<not> isSymlink (exFile ''odd.x.gz'' 70) \<and>
   parsed exOddWorld exFooDir (exFile ''odd.x.gz'' 70) = Inl ''unexpected section'' \<and>
   After (ModTime (exFile ''odd.x.gz'' 70)) (indexModTimeOf exOddFiles) \<and>
   indexNeedsUpdate (scanDir exOddWorld exGv exFooDir exOddFiles) \<and>
   Pkgindex (filepathJoin [exFooDir, ''index.html.gz''])
       (manpageByName (scanDir exOddWorld exGv exFooDir exOddFiles))
     \<in> set (dirBody exOddWorld exGv exFooDir exOddFiles) \<and>
   Name (exFile ''odd.x.gz'' 70) \<notin> fst ` set (manpageByName (scanDir exOddWorld exGv exFooDir exOddFiles)) \<and>
   dirBody exOddWorld exGv exFooDir exOddFiles =
     [Warn ''/srv/man/main/foo/odd.x.gz'' ''unexpected section'',
      Pkgindex ''/srv/man/main/foo/index.html.gz'' []]"
proof -
  have i: "exFile ''odd.x.gz'' 70 \<in> set exOddFiles" by code_simp
  have d: "distinct (map Name exOddFiles)" by code_simp
  have e: "isSource exFooDir (exFile ''odd.x.gz'' 70)" by code_simp
  have s: "\<not> isSymlink (exFile ''odd.x.gz'' 70)" by code_simp
  have p: "parsed exOddWorld exFooDir (exFile ''odd.x.gz'' 70) = Inl ''unexpected section''" by code_simp
  have a: "After (ModTime (exFile ''odd.x.gz'' 70)) (indexModTimeOf exOddFiles)" by code_simp
  have b: "dirBody exOddWorld exGv exFooDir exOddFiles =
     [Warn ''/srv/man/main/foo/odd.x.gz'' ''unexpected section'',
      Pkgindex ''/srv/man/main/foo/index.html.gz'' []]" by code_simp
  note t = unparsed_entry_marks_index[of exFooDir "exFile ''odd.x.gz'' 70" exOddWorld
      "''unexpected section''" exGv _ _ _ exOddFiles]
  from t i e s p a have m: "indexNeedsUpdate (scanDir exOddWorld exGv exFooDir exOddFiles) \<and>
      Pkgindex (filepathJoin [exFooDir, ''index.html.gz''])
        (manpageByName (scanDir exOddWorld exGv exFooDir exOddFiles))
        \<in> set (dirBody exOddWorld exGv exFooDir exOddFiles)" by blast
  from t d i e s p have k: "Name (exFile ''odd.x.gz'' 70) \<notin> fst ` set (manpageByName (scanDir exOddWorld exGv exFooDir exOddFiles))"
    by blast
  from i d e s p a m k b show ?thesis by blast
qed

end
